theory Spec2Isabelle
  imports Complex_Main "HOL-Library.Sublist"
begin

section \<open>JavaScript strings\<close>

text \<open>
  JavaScript strings are modelled as \<^typ>\<open>string\<close>. \<open>String.prototype.trim\<close> removes
  the white space and line terminator code units from both ends; of those, the ones that
  fit a \<^typ>\<open>char\<close> are TAB, LF, VT, FF, CR, SPACE and NBSP.
\<close>

definition js_ws :: "char \<Rightarrow> bool" where
  "js_ws c = (c \<in> set [CHR 0x09, CHR 0x0A, CHR 0x0B, CHR 0x0C, CHR 0x0D, CHR 0x20, CHR 0xA0])"

definition trim :: "string \<Rightarrow> string" where
  "trim s = rev (dropWhile js_ws (rev (dropWhile js_ws s)))"

text \<open>\<open>text.startsWith(p)\<close>.\<close>

definition startsWith :: "string \<Rightarrow> string \<Rightarrow> bool" where
  "startsWith s p = prefix p s"

text \<open>\<open>/[.!?]$/.test(text)\<close>: the last code unit is one of the three terminators.\<close>

definition ends_terminal :: "string \<Rightarrow> bool" where
  "ends_terminal s = (s \<noteq> [] \<and> last s \<in> set [CHR ''.'', CHR ''!'', CHR ''?''])"

section \<open>Turn trigger policy: the \<open>onTranscript\<close> handler of \<open>call-start\<close>\<close>

text \<open>
  The closure variables of the \<open>call-start\<close> handler. A pipeline object is identified by
  the number of pipelines created before it; \<open>abortedPipelines\<close> lists the pipelines whose
  captured \<open>aborted\<close> variable is \<open>true\<close>.
\<close>

record policy =
  transcriptBuffer :: string
  isProcessing :: bool
  aiSpeaking :: bool
  currentPipeline :: "nat option"
  lastProcessedText :: string
  lastTriggerTime :: int
  pipelinesCreated :: nat
  abortedPipelines :: "nat list"

text \<open>
  A transcript event as delivered by the transcription service, together with the value
  \<open>Date.now()\<close> returns while it is handled (milliseconds). The field \<open>text\<close> of the
  source is \<open>tr_text\<close> here; \<open>confidence\<close> is the value of the double.
\<close>

record transcript =
  tr_text :: string
  is_final :: bool
  speech_final :: bool
  confidence :: real
  now :: int

datatype action =
    EmitBargeIn
  | EmitTranscript string
  | StartTurn nat string

definition policy_init :: policy where
  "policy_init = \<lparr> transcriptBuffer = [], isProcessing = False, aiSpeaking = False,
     currentPipeline = None, lastProcessedText = [], lastTriggerTime = 0,
     pipelinesCreated = 0, abortedPipelines = [] \<rparr>"

text \<open>
  The doubles that the literals \<open>0.85\<close> and \<open>0.8\<close> denote: the comparisons of the source
  are comparisons of doubles, which are exact.
\<close>

definition double_0_85 :: real where
  "double_0_85 = 7656119366529843 / 9007199254740992"

definition double_0_8 :: real where
  "double_0_8 = 3602879701896397 / 4503599627370496"

definition shouldTrigger :: "transcript \<Rightarrow> bool" where
  "shouldTrigger ev =
     (is_final ev
      \<or> (confidence ev > double_0_85 \<and> speech_final ev)
      \<or> (length (tr_text ev) > 15 \<and> ends_terminal (tr_text ev)
          \<and> confidence ev > double_0_8))"

definition bargeIn :: "policy \<Rightarrow> transcript \<Rightarrow> bool" where
  "bargeIn s ev =
     (aiSpeaking s \<and> length (trim (tr_text ev)) > 5 \<and> \<not> startsWith (tr_text ev) (lastProcessedText s))"

definition onTranscript :: "policy \<Rightarrow> transcript \<Rightarrow> policy \<times> action list" where
  "onTranscript s ev =
     (if bargeIn s ev then
        (s\<lparr> abortedPipelines :=
               (case currentPipeline s of None \<Rightarrow> abortedPipelines s
                | Some p \<Rightarrow> p # abortedPipelines s),
             currentPipeline := None,
             aiSpeaking := False,
             isProcessing := False,
             transcriptBuffer := tr_text ev,
             lastProcessedText := [],
             lastTriggerTime := 0 \<rparr>,
         [EmitBargeIn])
      else if isProcessing s then (s, [])
      else
        let s1 = s\<lparr> transcriptBuffer := tr_text ev \<rparr>;
            timeSinceLastTrigger = now ev - lastTriggerTime s1;
            isSameText = (tr_text ev = lastProcessedText s1);
            isRapidFire = (timeSinceLastTrigger < 500)
        in if isSameText \<or> isRapidFire then (s1, [])
           else if shouldTrigger ev \<and> length (trim (transcriptBuffer s1)) > 0 then
             (s1\<lparr> isProcessing := True,
                  lastProcessedText := tr_text ev,
                  lastTriggerTime := now ev,
                  transcriptBuffer := [],
                  currentPipeline := Some (pipelinesCreated s1),
                  pipelinesCreated := Suc (pipelinesCreated s1),
                  aiSpeaking := True \<rparr>,
              [EmitTranscript (transcriptBuffer s1),
               StartTurn (pipelinesCreated s1) (transcriptBuffer s1)])
           else (s1, []))"

text \<open>The \<open>finally\<close> callback attached to the turn started for pipeline \<open>p\<close>.\<close>

definition turnFinally :: "policy \<Rightarrow> nat \<Rightarrow> policy" where
  "turnFinally s p =
     (let s1 = s\<lparr> isProcessing := False, aiSpeaking := False, currentPipeline := None \<rparr>
      in if p \<notin> set (abortedPipelines s1) then s1\<lparr> lastProcessedText := [] \<rparr> else s1)"

text \<open>
  What the handler sees over a call: transcript events, and the settling of the turns it
  started.
\<close>

datatype event = Transcript transcript | TurnSettled nat

datatype label = Fired int string | BargedIn | Settled nat bool | Quiet

definition is_start :: "action \<Rightarrow> bool" where
  "is_start a = (case a of StartTurn p t \<Rightarrow> True | _ \<Rightarrow> False)"

fun step :: "policy \<Rightarrow> event \<Rightarrow> policy \<times> label" where
  "step s (Transcript ev) =
     (let (s', acts) = onTranscript s ev
      in (s', if list_ex is_start acts then Fired (now ev) (tr_text ev)
              else if EmitBargeIn \<in> set acts then BargedIn
              else Quiet))"
| "step s (TurnSettled p) = (turnFinally s p, Settled p (p \<in> set (abortedPipelines s)))"

fun run :: "policy \<Rightarrow> event list \<Rightarrow> policy \<times> label list" where
  "run s [] = (s, [])"
| "run s (e # es) =
     (let (s1, l) = step s e; (s2, ls) = run s1 es in (s2, l # ls))"

text \<open>
  The turns alive after a run: those a \<open>StartTurn\<close> began (the calls of
  \<open>handleUserMessage\<close>) and that have not settled yet.
\<close>

fun startedBy :: "action list \<Rightarrow> nat list" where
  "startedBy [] = []"
| "startedBy (StartTurn p t # acts) = p # startedBy acts"
| "startedBy (a # acts) = startedBy acts"

fun turnsAlive :: "policy \<Rightarrow> nat list \<Rightarrow> event list \<Rightarrow> nat list" where
  "turnsAlive s alive [] = alive"
| "turnsAlive s alive (Transcript ev # es) =
     (let (s', acts) = onTranscript s ev in turnsAlive s' (alive @ startedBy acts) es)"
| "turnsAlive s alive (TurnSettled p # es) = turnsAlive (turnFinally s p) (removeAll p alive) es"

definition final :: "policy \<Rightarrow> event list \<Rightarrow> policy" where
  "final s es = fst (run s es)"

definition trace :: "policy \<Rightarrow> event list \<Rightarrow> label list" where
  "trace s es = snd (run s es)"

section \<open>Sessions, the registry and the services\<close>

text \<open>
  Values produced by \<open>JSON.parse\<close>. \<open>JObj\<close> lists the properties of the object, each
  name once.
\<close>

datatype json =
    JNull
  | JBool bool
  | JNum real
  | JStr string
  | JArr "json list"
  | JObj "(string \<times> json) list"

datatype role = User | Assistant

record message =
  role :: role
  content :: string

text \<open>
  \<open>session.pendingWorkspaceAction\<close>; \<open>toolCallId\<close> is \<open>None\<close> when the tool call
  carried no \<open>id\<close> property.
\<close>

record pending =
  toolCallId :: "json option"
  args :: json
  timestamp :: int

text \<open>
  The session object built by the connection handler; its \<open>id\<close> is the socket id under
  which it is stored. \<open>deepgram\<close> says whether the field holds a service object; \<open>pendingWorkspaceAction\<close> and \<open>disconnectedAt\<close> are \<open>None\<close>
  while the property is undefined or null. The three service objects \<open>llm\<close>, \<open>cartesia\<close>
  and \<open>webhook\<close> are outside the program: their answers are parameters of the handlers.
\<close>

record session =
  conversationHistory :: "message list"
  deepgram :: bool
  isCallActive :: bool
  lastActivity :: int
  pendingWorkspaceAction :: "pending option"
  disconnectedAt :: "int option"

text \<open>
  The process-wide state. Every session object is created by the connection handler of
  one socket and stored under that socket's id, so \<open>sessions\<close> maps a socket id to the
  object created for it (which the socket's handlers keep in their closure), and
  \<open>activeSessions\<close> lists the keys of the \<open>Map\<close> in insertion order. \<open>sockets\<close> are the
  keys of \<open>io.sockets.sockets\<close>.
\<close>

record server =
  sessions :: "string \<Rightarrow> session option"
  activeSessions :: "string list"
  sockets :: "string list"

type_synonym audio = string

datatype effect =
    Respond nat
  | EmitAiResponse string string
  | EmitAudio string audio
  | EmitStatus string string
  | EmitError string string
  | LlmGenerate "message list"
  | TextToSpeech string
  | SendWorkspaceAction json string
  | DeepgramDisconnect string
  | QueuePush string
  | QueueClose

text \<open>\<open>activeSessions.get(id)\<close>.\<close>

definition registry_get :: "server \<Rightarrow> string \<Rightarrow> session option" where
  "registry_get srv k = (if k \<in> set (activeSessions srv) then sessions srv k else None)"

text \<open>The connection handler: a fresh session stored under the socket id.\<close>

definition onConnection :: "int \<Rightarrow> string \<Rightarrow> server \<Rightarrow> server" where
  "onConnection t k srv =
     srv\<lparr> sessions := (sessions srv)(k \<mapsto>
             \<lparr> conversationHistory = [], deepgram = False, isCallActive = False,
               lastActivity = t, pendingWorkspaceAction = None, disconnectedAt = None \<rparr>),
          activeSessions :=
             (if k \<in> set (activeSessions srv) then activeSessions srv
              else activeSessions srv @ [k]),
          sockets := (if k \<in> set (sockets srv) then sockets srv else sockets srv @ [k]) \<rparr>"

subsection \<open>The result callback \<open>POST /webhook/n8n-response\<close>\<close>

text \<open>
  The \<open>sessionId\<close> property of the request body: missing or null, a string, or a value of
  another type (on which \<open>?.trim()\<close> throws).
\<close>

datatype js_id = IdAbsent | IdString string | IdOther

record n8n_request =
  sessionId :: js_id
  status :: "string option"
  summary :: "string option"

definition has_pending :: "server \<Rightarrow> string \<Rightarrow> bool" where
  "has_pending srv k =
     (case sessions srv k of None \<Rightarrow> False | Some sess \<Rightarrow> pendingWorkspaceAction sess \<noteq> None)"

text \<open>
  The two lookups: \<open>activeSessions.get(sessionId)\<close>, then the loop over
  \<open>activeSessions.entries()\<close> that stops at the first session with a pending action. The
  result is \<open>actualSessionId\<close> and the session.
\<close>

definition resolveSession :: "server \<Rightarrow> string option \<Rightarrow> (string \<times> session) option" where
  "resolveSession srv sid =
     (case (case sid of None \<Rightarrow> None
            | Some k \<Rightarrow> map_option (Pair k) (registry_get srv k)) of
        Some r \<Rightarrow> Some r
      | None \<Rightarrow>
          (case find (has_pending srv) (activeSessions srv) of
             None \<Rightarrow> None
           | Some k \<Rightarrow> map_option (Pair k) (sessions srv k)))"

definition dq :: string where
  "dq = [CHR 0x22]"

definition nl :: string where
  "nl = [CHR 0x0A]"

text \<open>The content of the message that carries the result into the conversation.\<close>

definition systemNote :: "string \<Rightarrow> string" where
  "systemNote summ =
     ''[System: You completed the Google Workspace task. The result is: '' @ dq @ summ @ dq
       @ ''.'' @ nl @ nl
     @ ''CRITICAL: Respond in FIRST PERSON as if YOU did the work yourself. Use '' @ dq
       @ ''I'' @ dq @ '', not '' @ dq @ ''they'' @ dq @ '' or '' @ dq @ ''the agent'' @ dq
       @ ''.'' @ nl
     @ ''Take ownership of the action. Don'' @ [CHR 0x27]
       @ ''t reveal there'' @ [CHR 0x27] @ ''s another system involved.'' @ nl @ nl
     @ ''Examples:'' @ nl
     @ ''- BAD: '' @ dq
       @ ''They can add the appointment, but they need you to confirm...'' @ dq @ nl
     @ ''- GOOD: '' @ dq
       @ ''I can add the appointment, but I need you to confirm...'' @ dq @ nl @ nl
     @ ''- BAD: '' @ dq @ ''The system found 5 emails...'' @ dq @ nl
     @ ''- GOOD: '' @ dq @ ''I found 5 emails...'' @ dq @ nl @ nl
     @ ''Summarize naturally in 1-2 sentences. Be helpful and conversational.]''"

text \<open>
  The part of the handler after the 200 response, for a session whose socket is
  connected: it yields the session and the effects. \<open>llm\<close> is the answer of
  \<open>session.llm.generateResponse\<close> and \<open>tts\<close> that of \<open>session.cartesia.textToSpeech\<close>,
  \<open>None\<close> when the call throws.
\<close>

definition speakResult ::
  "(message list \<Rightarrow> string option) \<Rightarrow> (string \<Rightarrow> audio option)
    \<Rightarrow> string \<Rightarrow> session \<Rightarrow> n8n_request \<Rightarrow> session \<times> effect list" where
  "speakResult llm tts k sess req =
     (let (sess1, responseText, asked) =
        (if status req = Some ''success'' \<and> summary req \<noteq> None \<and> summary req \<noteq> Some [] then
           let summ = the (summary req);
               h1 = conversationHistory sess @ [\<lparr> role = User, content = systemNote summ \<rparr>];
               responseText = (case llm h1 of Some naturalSummary \<Rightarrow> naturalSummary
                               | None \<Rightarrow> summ)
           in (sess\<lparr> conversationHistory :=
                        h1 @ [\<lparr> role = Assistant, content = responseText \<rparr>] \<rparr>,
               responseText, [LlmGenerate h1])
         else if status req = Some ''error'' then
           let responseText = ''I ran into an issue completing that task. Could you try again?''
           in (sess\<lparr> conversationHistory := conversationHistory sess
                        @ [\<lparr> role = Assistant, content = responseText \<rparr>] \<rparr>,
               responseText, [])
         else
           let responseText = ''All done! I completed that task for you.''
           in (sess\<lparr> conversationHistory := conversationHistory sess
                        @ [\<lparr> role = Assistant, content = responseText \<rparr>] \<rparr>,
               responseText, []))
      in (sess1\<lparr> pendingWorkspaceAction := None \<rparr>,
          asked @ [EmitAiResponse k responseText, TextToSpeech responseText]
          @ (case tts responseText of Some a \<Rightarrow> [EmitAudio k a] | None \<Rightarrow> [])
          @ [EmitStatus k ''Listening...'']))"

text \<open>\<open>rawSessionId?.trim()\<close>, for an id that is missing or a string.\<close>

definition trimmedId :: "js_id \<Rightarrow> string option" where
  "trimmedId rawSessionId = (case rawSessionId of IdString raw \<Rightarrow> Some (trim raw) | _ \<Rightarrow> None)"

text \<open>
  The handler. A \<open>sessionId\<close> that is neither missing nor a string makes \<open>trim\<close> throw,
  which the handler's \<open>catch\<close> answers with 500. The awaited calls are taken as atomic.
\<close>

definition n8nResponse ::
  "(message list \<Rightarrow> string option) \<Rightarrow> (string \<Rightarrow> audio option)
    \<Rightarrow> server \<Rightarrow> n8n_request \<Rightarrow> server \<times> effect list" where
  "n8nResponse llm tts srv req =
     (case sessionId req of
        IdOther \<Rightarrow> (srv, [Respond 500])
      | _ \<Rightarrow>
        (case resolveSession srv (trimmedId (sessionId req)) of
           None \<Rightarrow> (srv, [Respond 404])
         | Some (actualSessionId, sess) \<Rightarrow>
             if actualSessionId \<notin> set (sockets srv) then
               (srv\<lparr> sessions := (sessions srv)(actualSessionId \<mapsto>
                        sess\<lparr> pendingWorkspaceAction := None \<rparr>) \<rparr>,
                [Respond 200])
             else
               let (sess', effs) = speakResult llm tts actualSessionId sess req
               in (srv\<lparr> sessions := (sessions srv)(actualSessionId \<mapsto> sess') \<rparr>,
                   Respond 200 # effs)))"

subsection \<open>Disconnect and the periodic sweep\<close>

text \<open>
  The \<open>disconnect\<close> handler of socket \<open>k\<close>, run at time \<open>t\<close>. It works on the session
  object of its closure, whether or not the registry still holds it. The socket has left
  \<open>io.sockets.sockets\<close> when the handler runs.
\<close>

definition onDisconnect :: "int \<Rightarrow> string \<Rightarrow> server \<Rightarrow> server \<times> effect list" where
  "onDisconnect t k srv =
     (let srv1 = srv\<lparr> sockets := removeAll k (sockets srv) \<rparr>
      in case sessions srv1 k of
           None \<Rightarrow> (srv1, [])
         | Some sess \<Rightarrow>
             (if pendingWorkspaceAction sess \<noteq> None then
                srv1\<lparr> sessions := (sessions srv1)(k \<mapsto> sess\<lparr> disconnectedAt := Some t \<rparr>) \<rparr>
              else srv1\<lparr> activeSessions := removeAll k (activeSessions srv1) \<rparr>,
              if deepgram sess then [DeepgramDisconnect k] else []))"

text \<open>
  The test the sweep applies to one registry entry at time \<open>t\<close>. A timestamp of 0 is
  falsy in the source's conditions.
\<close>

definition stale :: "int \<Rightarrow> session \<Rightarrow> bool" where
  "stale t sess =
     (if disconnectedAt sess \<noteq> None \<and> disconnectedAt sess \<noteq> Some 0 then
        t - the (disconnectedAt sess) > 60 * 1000
      else \<not> isCallActive sess \<and> lastActivity sess \<noteq> 0
           \<and> t - lastActivity sess > 30 * 60 * 1000)"

definition stale_key :: "int \<Rightarrow> server \<Rightarrow> string \<Rightarrow> bool" where
  "stale_key t srv k = (case sessions srv k of None \<Rightarrow> False | Some sess \<Rightarrow> stale t sess)"

text \<open>The \<open>setInterval\<close> callback: \<open>forEach\<close> over the registry, deleting the stale entries.\<close>

definition sweep :: "int \<Rightarrow> server \<Rightarrow> server \<times> effect list" where
  "sweep t srv =
     (srv\<lparr> activeSessions := filter (\<lambda>k. \<not> stale_key t srv k) (activeSessions srv) \<rparr>,
      concat (map (\<lambda>k. case sessions srv k of
                          Some sess \<Rightarrow> if stale t sess \<and> deepgram sess then [DeepgramDisconnect k] else []
                        | None \<Rightarrow> [])
                  (activeSessions srv)))"

section \<open>Sentence segmenter\<close>

text \<open>
  Modelled from the spec: the class \<open>SentenceDetector\<close> of \<open>utils/sentence-detector.js\<close>,
  which the server imports and which is not among the sources. Section 4.3 of the
  specification gives its contract: \<open>addChunk(text)\<close> returns the sentences completed by the
  chunk, \<open>getRemainder()\<close> the trailing text not yet terminated; the terminal punctuation
  \<open>. ! ?\<close> marks the boundaries, and text that does not yet end a sentence is buffered
  across chunks.
\<close>

record sentenceDetector =
  buffer :: string

text \<open>Modelled from the spec: a detector is constructed per turn, with nothing buffered.\<close>

definition newSentenceDetector :: sentenceDetector where
  "newSentenceDetector = \<lparr> buffer = [] \<rparr>"

text \<open>Modelled from the spec: the sentence-terminal punctuation.\<close>

definition terminal :: "char \<Rightarrow> bool" where
  "terminal c = (c \<in> set [CHR ''.'', CHR ''!'', CHR ''?''])"

text \<open>
  Modelled from the spec: the scan of the buffered text followed by the new chunk. \<open>cur\<close>
  is the sentence under construction; the result is the completed sentences and what is
  left.
\<close>

fun scan :: "string \<Rightarrow> string \<Rightarrow> string list \<times> string" where
  "scan cur [] = ([], cur)"
| "scan cur (c # cs) =
     (if terminal c then (let (ss, r) = scan [] cs in ((cur @ [c]) # ss, r))
      else scan (cur @ [c]) cs)"

text \<open>
  Modelled from the spec: \<open>addChunk\<close> returns the sentences the chunk completes and keeps
  the rest.
\<close>

definition addChunk :: "sentenceDetector \<Rightarrow> string \<Rightarrow> string list \<times> sentenceDetector" where
  "addChunk d chunk = (let (ss, r) = scan (buffer d) chunk in (ss, d\<lparr> buffer := r \<rparr>))"

text \<open>Modelled from the spec: \<open>getRemainder\<close> is the text not yet terminated.\<close>

definition getRemainder :: "sentenceDetector \<Rightarrow> string" where
  "getRemainder d = buffer d"

text \<open>The chunks of a stream fed one after the other; the sentences come out in order.\<close>

fun feed :: "sentenceDetector \<Rightarrow> string list \<Rightarrow> string list \<times> sentenceDetector" where
  "feed d [] = ([], d)"
| "feed d (chunk # chunks) =
     (let (ss, d1) = addChunk d chunk; (ss', d2) = feed d1 chunks in (ss @ ss', d2))"

section \<open>Synthesis dispatch queue and the TTS worker\<close>

text \<open>
  Modelled from the spec: the class \<open>AsyncQueue\<close> of \<open>utils/async-queue.js\<close>, which the
  server imports and which is not among the sources. Section 4.4 of the specification
  gives its contract: an ordered, closable queue with a non-blocking \<open>push\<close>, a \<open>close\<close>
  that signals that no more items come, and an iteration that suspends the consumer until
  an item is available or the queue is closed and drained.
\<close>

record asyncQueue =
  items :: "string list"
  closed :: bool

text \<open>Modelled from the spec: a queue is opened per turn, empty and not closed.\<close>

definition newAsyncQueue :: asyncQueue where
  "newAsyncQueue = \<lparr> items = [], closed = False \<rparr>"

text \<open>Modelled from the spec: \<open>push\<close> adds the item behind those already queued.\<close>

definition push :: "asyncQueue \<Rightarrow> string \<Rightarrow> asyncQueue" where
  "push q x = q\<lparr> items := items q @ [x] \<rparr>"

text \<open>Modelled from the spec: \<open>close\<close> signals that no more items come.\<close>

definition close :: "asyncQueue \<Rightarrow> asyncQueue" where
  "close q = q\<lparr> closed := True \<rparr>"

datatype next_item = Item string asyncQueue | Drained | Pending

text \<open>Modelled from the spec: what the queue's iterator has for a consumer that asks.\<close>

definition next_of :: "asyncQueue \<Rightarrow> next_item" where
  "next_of q =
     (case items q of
        x # xs \<Rightarrow> Item x (q\<lparr> items := xs \<rparr>)
      | [] \<Rightarrow> if closed q then Drained else Pending)"

text \<open>
  \<open>startTTSWorker\<close> as a state machine. The worker is suspended either in the
  \<open>for await\<close> on the queue (\<open>Waiting\<close>) or in \<open>await session.cartesia.textToSpeech(sentence)\<close>
  (\<open>Synthesizing sentence\<close>), or it has returned. \<open>inFlight\<close> counts the synthesis
  requests issued and not yet settled; \<open>isAborted\<close> is the flag of the turn's pipeline.
\<close>

datatype wstate = Waiting | Synthesizing string | Returned

record worker =
  wstate :: wstate
  sentenceCount :: nat
  ttsQueue :: asyncQueue
  isAborted :: bool
  inFlight :: nat

text \<open>
  What happens to the worker of one turn: the producer pushes a sentence or closes the
  queue, the pipeline is aborted, or the pending synthesis request settles, with the audio
  or with an error (\<open>None\<close>).
\<close>

datatype wevent = Push string | Close | Abort | TtsSettled "audio option"

text \<open>
  What the worker does: the status line, the synthesis request for a sentence, and the
  \<open>audio-response\<close> emitted for a sentence.
\<close>

datatype wout = WStatus string | TtsRequest string | AudioResponse string audio

definition newWorker :: worker where
  "newWorker = \<lparr> wstate = Waiting, sentenceCount = 0, ttsQueue = newAsyncQueue,
     isAborted = False, inFlight = 0 \<rparr>"

text \<open>
  The body of the loop up to its next suspension, for a worker waiting on the queue: the
  abort check, the \<open>if (!sentence) break\<close>, the count, the status on the first sentence
  and the synthesis request.
\<close>

definition resume :: "worker \<Rightarrow> worker \<times> wout list" where
  "resume w =
     (if wstate w \<noteq> Waiting then (w, [])
      else case next_of (ttsQueue w) of
             Pending \<Rightarrow> (w, [])
           | Drained \<Rightarrow> (w\<lparr> wstate := Returned \<rparr>, [])
           | Item sentence q \<Rightarrow>
               if isAborted w then (w\<lparr> ttsQueue := q, wstate := Returned \<rparr>, [])
               else if sentence = [] then (w\<lparr> ttsQueue := q, wstate := Returned \<rparr>, [])
               else
                 (w\<lparr> ttsQueue := q, sentenceCount := Suc (sentenceCount w),
                     wstate := Synthesizing sentence, inFlight := Suc (inFlight w) \<rparr>,
                  (if Suc (sentenceCount w) = 1 then [WStatus ''AI is speaking...''] else [])
                  @ [TtsRequest sentence]))"

definition wstep :: "worker \<Rightarrow> wevent \<Rightarrow> worker \<times> wout list" where
  "wstep w e =
     (case e of
        Push x \<Rightarrow> resume (w\<lparr> ttsQueue := push (ttsQueue w) x \<rparr>)
      | Close \<Rightarrow> resume (w\<lparr> ttsQueue := close (ttsQueue w) \<rparr>)
      | Abort \<Rightarrow> (w\<lparr> isAborted := True \<rparr>, [])
      | TtsSettled r \<Rightarrow>
          (case wstate w of
             Synthesizing sentence \<Rightarrow>
               (case r of
                  Some a \<Rightarrow>
                    if isAborted w then (w\<lparr> wstate := Returned, inFlight := inFlight w - 1 \<rparr>, [])
                    else
                      (let (w', outs) = resume (w\<lparr> wstate := Waiting, inFlight := inFlight w - 1 \<rparr>)
                       in (w', AudioResponse sentence a # outs))
                | None \<Rightarrow> resume (w\<lparr> wstate := Waiting, inFlight := inFlight w - 1 \<rparr>))
           | _ \<Rightarrow> (w, [])))"

fun wrun :: "worker \<Rightarrow> wevent list \<Rightarrow> worker \<times> wout list" where
  "wrun w [] = (w, [])"
| "wrun w (e # es) =
     (let (w1, o1) = wstep w e; (w2, o2) = wrun w1 es in (w2, o1 @ o2))"

text \<open>The sentences pushed, requested for synthesis and answered with audio, in order.\<close>

fun pushed :: "wevent list \<Rightarrow> string list" where
  "pushed [] = []"
| "pushed (Push x # es) = x # pushed es"
| "pushed (e # es) = pushed es"

fun requested :: "wout list \<Rightarrow> string list" where
  "requested [] = []"
| "requested (TtsRequest x # os) = x # requested os"
| "requested (b # os) = requested os"

fun answered :: "wout list \<Rightarrow> string list" where
  "answered [] = []"
| "answered (AudioResponse x a # os) = x # answered os"
| "answered (b # os) = answered os"

text \<open>
  The invariant of the worker's runs. \<open>ps\<close> are the sentences pushed so far and \<open>outs\<close>
  what the worker has done: the sentences taken from the queue are those pushed minus
  those still queued; until the worker returns every sentence taken has been requested;
  no empty sentence is requested; and the audio emitted follows the requests, the request
  in flight excepted.
\<close>

definition winv :: "worker \<Rightarrow> wout list \<Rightarrow> string list \<Rightarrow> bool" where
  "winv w outs ps =
     (\<exists>consumed. ps = consumed @ items (ttsQueue w)
        \<and> prefix (requested outs) consumed
        \<and> (wstate w = Waiting \<or> (\<exists>s. wstate w = Synthesizing s) \<longrightarrow> requested outs = consumed)
        \<and> [] \<notin> set (requested outs)
        \<and> (case wstate w of
              Synthesizing s \<Rightarrow>
                (\<exists>cs. requested outs = cs @ [s] \<and> subseq (answered outs) cs) \<and> inFlight w = 1
            | _ \<Rightarrow> subseq (answered outs) (requested outs) \<and> inFlight w = 0))"

section \<open>The turn pipeline: \<open>handleUserMessage\<close>\<close>

subsection \<open>The tool-call payload of \<open>streamOpenAIResponse\<close>\<close>

text \<open>
  An entry of the \<open>toolCalls\<close> map when the stream finishes with \<open>tool_calls\<close>: the id,
  the function name (absent when the first fragment carried none) and the accumulated
  arguments text.
\<close>

record tool_call =
  tc_id :: string
  tc_name :: "string option"
  argsBuffer :: string

definition hexdigit :: "nat \<Rightarrow> char" where
  "hexdigit n = ''0123456789abcdef'' ! (n mod 16)"

text \<open>The escape \<open>JSON.stringify\<close> writes for one code unit of a string.\<close>

definition json_escape :: "char \<Rightarrow> string" where
  "json_escape c =
     (if c = CHR 0x22 then [CHR 0x5C, CHR 0x22]
      else if c = CHR 0x5C then [CHR 0x5C, CHR 0x5C]
      else if c = CHR 0x08 then [CHR 0x5C, CHR ''b'']
      else if c = CHR 0x0C then [CHR 0x5C, CHR ''f'']
      else if c = CHR 0x0A then [CHR 0x5C, CHR ''n'']
      else if c = CHR 0x0D then [CHR 0x5C, CHR ''r'']
      else if c = CHR 0x09 then [CHR 0x5C, CHR ''t'']
      else if (of_char c :: nat) < 32 then
        [CHR 0x5C, CHR ''u'', CHR ''0'', CHR ''0'',
         hexdigit (of_char c div 16), hexdigit (of_char c mod 16)]
      else [c])"

definition json_quote :: "string \<Rightarrow> string" where
  "json_quote s = dq @ concat (map json_escape s) @ dq"

fun commas :: "string list \<Rightarrow> string" where
  "commas [] = []"
| "commas [x] = x"
| "commas (x # y # ys) = x @ '','' @ commas (y # ys)"

text \<open>
  \<open>JSON.stringify({ id: tc.id, name: tc.name, arguments: tc.argsBuffer })\<close>; a property
  whose value is undefined is left out.
\<close>

definition toolCallText :: "tool_call \<Rightarrow> string" where
  "toolCallText tc =
     ''{'' @ dq @ ''id'' @ dq @ '':'' @ json_quote (tc_id tc)
     @ (case tc_name tc of None \<Rightarrow> []
        | Some n \<Rightarrow> '','' @ dq @ ''name'' @ dq @ '':'' @ json_quote n)
     @ '','' @ dq @ ''arguments'' @ dq @ '':'' @ json_quote (argsBuffer tc) @ ''}''"

text \<open>The chunk yielded last: \<open>JSON.stringify({ __tool_calls: completedToolCalls })\<close>.\<close>

definition toolCallsChunk :: "tool_call list \<Rightarrow> string" where
  "toolCallsChunk tcs =
     ''{'' @ dq @ ''__tool_calls'' @ dq @ '':['' @ commas (map toolCallText tcs) @ '']}''"

text \<open>The value that text denotes.\<close>

definition toolCallValue :: "tool_call \<Rightarrow> json" where
  "toolCallValue tc =
     JObj ([(''id'', JStr (tc_id tc))]
           @ (case tc_name tc of None \<Rightarrow> [] | Some n \<Rightarrow> [(''name'', JStr n)])
           @ [(''arguments'', JStr (argsBuffer tc))])"

definition toolCallsValue :: "tool_call list \<Rightarrow> json" where
  "toolCallsValue tcs = JObj [(''__tool_calls'', JArr (map toolCallValue tcs))]"

subsection \<open>JavaScript values in the handler\<close>

text \<open>\<open>chunk.includes(sub)\<close> (\<open>includes\<close> is a keyword here).\<close>

fun js_includes :: "string \<Rightarrow> string \<Rightarrow> bool" where
  "js_includes [] sub = (sub = [])"
| "js_includes (c # cs) sub = (prefix sub (c # cs) \<or> js_includes cs sub)"

text \<open>
  Reading a property of a parsed value: \<open>Inl ()\<close> is the TypeError of reading from
  \<open>null\<close>, \<open>Inr None\<close> is \<open>undefined\<close>. Only an object has the properties read here.
\<close>

definition getProp :: "json \<Rightarrow> string \<Rightarrow> unit + json option" where
  "getProp v k =
     (case v of
        JNull \<Rightarrow> Inl ()
      | JObj kvs \<Rightarrow> Inr (map_of kvs k)
      | _ \<Rightarrow> Inr None)"

definition truthy :: "json \<Rightarrow> bool" where
  "truthy v =
     (case v of
        JNull \<Rightarrow> False
      | JBool b \<Rightarrow> b
      | JNum n \<Rightarrow> n \<noteq> 0
      | JStr s \<Rightarrow> s \<noteq> []
      | _ \<Rightarrow> True)"

text \<open>
  What the program takes from outside during a turn: \<open>JSON.parse\<close> (\<open>None\<close> for a
  SyntaxError), the string conversion \<open>JSON.parse\<close> applies to an argument that is not a
  string, the speech synthesis (\<open>None\<close> when it throws), the index
  \<open>Math.floor(Math.random() * acknowledgments.length)\<close>, which is one of 0 to 3 since
  \<open>Math.random()\<close> is below 1, and the clock.
\<close>

record services =
  jsonParse :: "string \<Rightarrow> json option"
  toStringJs :: "json \<Rightarrow> string"
  textToSpeech :: "string \<Rightarrow> audio option"
  randomIndex :: nat
  dateNow :: int

text \<open>
  The sentence detector the handler constructs is taken as a parameter: its fresh state,
  \<open>addChunk\<close> and \<open>getRemainder\<close>.
\<close>

record 'd segmenter =
  seg_new :: 'd
  seg_addChunk :: "'d \<Rightarrow> string \<Rightarrow> string list \<times> 'd"
  seg_getRemainder :: "'d \<Rightarrow> string"

definition specSegmenter :: "sentenceDetector segmenter" where
  "specSegmenter = \<lparr> seg_new = newSentenceDetector,
     seg_addChunk = (\<lambda>d chunk. addChunk d chunk), seg_getRemainder = getRemainder \<rparr>"

subsection \<open>The handler\<close>

text \<open>
  The token stream as the handler meets it: a chunk, an abort of the pipeline while the
  handler waits for the next chunk, or the stream throwing.
\<close>

datatype stream_ev = Chunk string | AbortNow | StreamError

record 'd turn =
  fullResponse :: string
  toolCallDetected :: "json option"
  detector :: 'd
  emitted :: "effect list"

text \<open>
  The test at the head of the loop body: the chunk contains \<open>__tool_call\<close>, parses, and
  the parsed value has a truthy property \<open>__tool_call\<close>. A chunk that does not parse, or a
  parsed \<open>null\<close>, falls into the empty \<open>catch\<close>.
\<close>

definition toolCallOf :: "services \<Rightarrow> string \<Rightarrow> json option" where
  "toolCallOf sv chunk =
     (if js_includes chunk ''__tool_call'' then
        (case jsonParse sv chunk of
           None \<Rightarrow> None
         | Some toolData \<Rightarrow>
             (case getProp toolData ''__tool_call'' of
                Inr (Some v) \<Rightarrow> if truthy v then Some v else None
              | _ \<Rightarrow> None))
      else None)"

text \<open>One chunk that is not a tool call: the text, the detector, the emits and pushes.\<close>

definition processChunk :: "'d segmenter \<Rightarrow> string \<Rightarrow> 'd turn \<Rightarrow> string \<Rightarrow> 'd turn" where
  "processChunk seg k t chunk =
     (let (sentences, d) = seg_addChunk seg (detector t) chunk
      in t\<lparr> fullResponse := fullResponse t @ chunk,
            detector := d,
            emitted := emitted t
              @ concat (map (\<lambda>sentence. [EmitAiResponse k sentence, QueuePush sentence])
                          sentences) \<rparr>)"

text \<open>
  The \<open>for await\<close> loop. The result says whether the pipeline is aborted when the loop is
  left and whether the stream threw.
\<close>

fun consume ::
  "services \<Rightarrow> 'd segmenter \<Rightarrow> string \<Rightarrow> 'd turn \<Rightarrow> bool \<Rightarrow> stream_ev list
     \<Rightarrow> 'd turn \<times> bool \<times> bool" where
  "consume sv seg k t ab [] = (t, ab, False)"
| "consume sv seg k t ab (AbortNow # es) = consume sv seg k t True es"
| "consume sv seg k t ab (StreamError # es) = (t, ab, True)"
| "consume sv seg k t ab (Chunk chunk # es) =
     (if ab then (t, ab, False)
      else case toolCallOf sv chunk of
             Some v \<Rightarrow> consume sv seg k (t\<lparr> toolCallDetected := Some v \<rparr>) ab es
           | None \<Rightarrow> consume sv seg k (processChunk seg k t chunk) ab es)"

definition acknowledgments :: "string list" where
  "acknowledgments =
     [''On it, give me a moment.'', ''Let me check that for you.'',
      ''Sure thing, one second.'', ''Got it, checking now.'']"

text \<open>
  \<open>JSON.parse(toolCallDetected.arguments)\<close>: an undefined argument is not JSON, a string
  is parsed, another value is converted to a string first.
\<close>

definition parseArguments :: "services \<Rightarrow> json \<Rightarrow> json option" where
  "parseArguments sv v =
     (case getProp v ''arguments'' of
        Inr (Some (JStr a)) \<Rightarrow> jsonParse sv a
      | Inr (Some u) \<Rightarrow> jsonParse sv (toStringJs sv u)
      | _ \<Rightarrow> None)"

definition propOf :: "json \<Rightarrow> string \<Rightarrow> json option" where
  "propOf v k = (case getProp v k of Inr r \<Rightarrow> r | Inl u \<Rightarrow> None)"

text \<open>
  The branch for a detected \<open>google_workspace_action\<close> call, up to its \<open>return\<close>. The
  last component says that the apology's synthesis threw, which the outer \<open>catch\<close>
  handles.
\<close>

definition workspaceAction ::
  "services \<Rightarrow> string \<Rightarrow> session \<Rightarrow> json \<Rightarrow> session \<times> effect list \<times> bool" where
  "workspaceAction sv k sess v =
     (case parseArguments sv v of
        Some a \<Rightarrow>
          (let acknowledgment = acknowledgments ! randomIndex sv
           in (sess\<lparr> pendingWorkspaceAction :=
                        Some \<lparr> toolCallId = propOf v ''id'', args = a, timestamp = dateNow sv \<rparr>,
                    conversationHistory := conversationHistory sess
                        @ [\<lparr> role = Assistant, content = acknowledgment \<rparr>] \<rparr>,
               [EmitAiResponse k acknowledgment, EmitStatus k ''Processing your request...'',
                TextToSpeech acknowledgment]
               @ (case textToSpeech sv acknowledgment of
                    Some ackAudio \<Rightarrow> [EmitAudio k ackAudio] | None \<Rightarrow> [])
               @ [SendWorkspaceAction a k, EmitStatus k ''Listening...''],
               False))
      | None \<Rightarrow>
          (let errorMsg = ''Sorry, I couldn'' @ [CHR 0x27]
                 @ ''t process that request. Please try again.''
           in case textToSpeech sv errorMsg of
                Some errorAudio \<Rightarrow>
                  (sess,
                   [EmitAiResponse k errorMsg, TextToSpeech errorMsg, EmitAudio k errorAudio,
                    EmitStatus k ''Listening...''],
                   False)
              | None \<Rightarrow> (sess, [EmitAiResponse k errorMsg, TextToSpeech errorMsg], True)))"

definition failureNotice :: "string \<Rightarrow> effect list" where
  "failureNotice k =
     [EmitError k ''Failed to generate response'', EmitStatus k ''Error - Please try again'']"

text \<open>
  \<open>handleUserMessage(socket, session, userMessage, pipeline)\<close> for the socket \<open>k\<close>. The
  stream is given by its events; \<open>abortedInJoin\<close> says that the pipeline was aborted while
  the handler waited for the worker to finish. The result lists the handler's own
  effects; the worker's are those of \<open>wrun\<close> on the pushes and the close.
\<close>

definition handleUserMessage ::
  "services \<Rightarrow> 'd segmenter \<Rightarrow> string \<Rightarrow> session \<Rightarrow> string \<Rightarrow> stream_ev list \<Rightarrow> bool
     \<Rightarrow> session \<times> effect list" where
  "handleUserMessage sv seg k sess userMessage stream abortedInJoin =
     (let sess1 = sess\<lparr> conversationHistory := conversationHistory sess
                          @ [\<lparr> role = User, content = userMessage \<rparr>] \<rparr>;
          t0 = \<lparr> fullResponse = [], toolCallDetected = None, detector = seg_new seg,
                 emitted = [EmitStatus k ''AI is thinking...''] \<rparr>;
          (t1, ab, threw) = consume sv seg k t0 False stream
      in if threw then (sess1, emitted t1 @ [QueueClose] @ failureNotice k)
         else
           let remainder = seg_getRemainder seg (detector t1);
               t2 = (if remainder \<noteq> [] \<and> \<not> ab then
                       t1\<lparr> fullResponse := fullResponse t1 @ remainder,
                           emitted := emitted t1
                             @ [EmitAiResponse k remainder, QueuePush remainder] \<rparr>
                     else t1);
               effs = emitted t2 @ [QueueClose];
               ab2 = (ab \<or> abortedInJoin)
           in case (if ab2 then None else toolCallDetected t2) of
                Some v \<Rightarrow>
                  if propOf v ''name'' = Some (JStr ''google_workspace_action'') then
                    (let (sess2, effs2, threw2) = workspaceAction sv k sess1 v
                     in (sess2, effs @ effs2 @ (if threw2 then failureNotice k else [])))
                  else
                    (sess1\<lparr> conversationHistory := conversationHistory sess1
                              @ [\<lparr> role = Assistant, content = fullResponse t2 \<rparr>] \<rparr>,
                     effs @ [EmitStatus k ''Listening...''])
              | None \<Rightarrow>
                  if ab2 then (sess1, effs)
                  else
                    (sess1\<lparr> conversationHistory := conversationHistory sess1
                              @ [\<lparr> role = Assistant, content = fullResponse t2 \<rparr>] \<rparr>,
                     effs @ [EmitStatus k ''Listening...'']))"

text \<open>States and requests used to exercise the registry and the callback.\<close>

definition pend0 :: pending where
  "pend0 = \<lparr> toolCallId = Some (JStr ''call_1''),
     args = JObj [(''action'', JStr ''calendar''), (''request'', JStr ''book a meeting'')],
     timestamp = 900 \<rparr>"

definition sess_waiting :: session where
  "sess_waiting = \<lparr> conversationHistory = [], deepgram = False, isCallActive = False,
     lastActivity = 1000, pendingWorkspaceAction = Some pend0, disconnectedAt = None \<rparr>"

definition sess_idle :: session where
  "sess_idle = \<lparr> conversationHistory = [], deepgram = False, isCallActive = False,
     lastActivity = 1000, pendingWorkspaceAction = None, disconnectedAt = None \<rparr>"

definition srv_live :: server where
  "srv_live = \<lparr> sessions = [''b'' \<mapsto> sess_idle, ''a'' \<mapsto> sess_waiting],
     activeSessions = [''b'', ''a''], sockets = [''b'', ''a''] \<rparr>"

definition srv_gone :: server where
  "srv_gone = fst (onDisconnect 2000000 ''a'' srv_live)"

definition srv_quiet :: server where
  "srv_quiet = \<lparr> sessions = [''b'' \<mapsto> sess_idle], activeSessions = [''b''],
     sockets = [''b''] \<rparr>"

definition llm_ok :: "message list \<Rightarrow> string option" where
  "llm_ok h = Some ''I booked the meeting.''"

definition tts_ok :: "string \<Rightarrow> audio option" where
  "tts_ok t = Some (''audio:'' @ t)"

definition req_success :: n8n_request where
  "req_success = \<lparr> sessionId = IdString '' a '', status = Some ''success'',
     summary = Some ''Meeting booked'' \<rparr>"

definition req_error :: n8n_request where
  "req_error = \<lparr> sessionId = IdString ''a'', status = Some ''error'', summary = None \<rparr>"

definition req_unknown :: n8n_request where
  "req_unknown = \<lparr> sessionId = IdString ''zzz'', status = Some ''success'',
     summary = Some ''Meeting booked'' \<rparr>"

text \<open>Transcript events used to exercise the policy.\<close>

definition ev_hello :: transcript where
  "ev_hello = \<lparr> tr_text = ''hello world'', is_final = True, speech_final = False,
     confidence = 7 / 8, now = 1000 \<rparr>"

definition ev_stop :: transcript where
  "ev_stop = \<lparr> tr_text = ''stop right now'', is_final = False, speech_final = False,
     confidence = 5 / 8, now = 1100 \<rparr>"

definition ev_wait :: transcript where
  "ev_wait = \<lparr> tr_text = ''wait a moment'', is_final = False, speech_final = False,
     confidence = 5 / 8, now = 1300 \<rparr>"

text \<open>
  A call in which the first turn is interrupted, a second turn starts 100 ms later, and
  the first turn then settles.
\<close>

definition overlapped :: "event list" where
  "overlapped =
     [Transcript ev_hello, Transcript ev_stop,
      Transcript (ev_stop\<lparr> is_final := True, now := 1200 \<rparr>), TurnSettled 0]"

text \<open>A tool call and a parser that knows its payload, to exercise the handler.\<close>

definition tc_calendar :: tool_call where
  "tc_calendar = \<lparr> tc_id = ''call_1'', tc_name = Some ''google_workspace_action'',
     argsBuffer = ''{'' @ dq @ ''action'' @ dq @ '':'' @ dq @ ''calendar'' @ dq @ '',''
       @ dq @ ''request'' @ dq @ '':'' @ dq @ ''book a meeting'' @ dq @ ''}'' \<rparr>"

definition sv_fixture :: services where
  "sv_fixture = \<lparr>
     jsonParse = (\<lambda>s. if s = toolCallsChunk [tc_calendar] then Some (toolCallsValue [tc_calendar])
                       else if s = argsBuffer tc_calendar
                       then Some (JObj [(''action'', JStr ''calendar''),
                                        (''request'', JStr ''book a meeting'')])
                       else None),
     toStringJs = (\<lambda>v. []),
     textToSpeech = tts_ok,
     randomIndex = 1,
     dateNow = 900 \<rparr>"

section \<open>Properties of the trigger policy\<close>

lemma run_append:
  "run s (a @ b) = (let (s1, l1) = run s a; (s2, l2) = run s1 b in (s2, l1 @ l2))"
  by (induction a arbitrary: s) (auto split: prod.splits)

lemma final_append: "final s (a @ b) = final (final s a) b"
  by (simp add: final_def run_append split: prod.splits)

lemma trace_append: "trace s (a @ b) = trace s a @ trace (final s a) b"
  by (simp add: trace_def final_def run_append split: prod.splits)

lemma trace_Nil [simp]: "trace s [] = []"
  by (simp add: trace_def)

lemma final_Nil [simp]: "final s [] = s"
  by (simp add: final_def)

lemma trace_Cons: "trace s (e # es) = snd (step s e) # trace (fst (step s e)) es"
  by (simp add: trace_def split: prod.splits)

lemma final_Cons: "final s (e # es) = final (fst (step s e)) es"
  by (simp add: final_def split: prod.splits)

lemma trace_length: "length (trace s es) = length es"
  by (induction es arbitrary: s) (simp_all add: trace_Cons)

text \<open>A split of the trace is a split of the events.\<close>

lemma trace_split:
  assumes "trace s es = a @ b"
  shows "\<exists>ea eb. es = ea @ eb \<and> trace s ea = a \<and> trace (final s ea) eb = b"
proof -
  let ?ea = "take (length a) es" and ?eb = "drop (length a) es"
  have es: "es = ?ea @ ?eb" by simp
  have len: "length es = length a + length b"
    using assms trace_length [of s es] by simp
  have "trace s ?ea @ trace (final s ?ea) ?eb = a @ b"
    using assms trace_append [of s ?ea ?eb] by simp
  moreover have "length (trace s ?ea) = length a"
    using len by (simp add: trace_length)
  ultimately have "trace s ?ea = a \<and> trace (final s ?ea) ?eb = b"
    by simp
  with es show ?thesis by blast
qed

text \<open>A trigger passes both suppression checks and records its text and time.\<close>

lemma step_Fired:
  assumes "step s e = (s', Fired t x)"
  shows "lastTriggerTime s' = t \<and> lastProcessedText s' = x
         \<and> 500 \<le> t - lastTriggerTime s \<and> x \<noteq> lastProcessedText s"
  using assms
  by (cases e) (auto simp: onTranscript_def Let_def is_start_def split: if_splits)

lemma step_keeps_time:
  assumes "step s e = (s', l)" "l \<noteq> BargedIn" "\<forall>t x. l \<noteq> Fired t x"
  shows "lastTriggerTime s' = lastTriggerTime s"
  using assms
  by (cases e) (auto simp: onTranscript_def turnFinally_def Let_def is_start_def split: if_splits)

lemma step_keeps_text:
  assumes "step s e = (s', l)" "l \<noteq> BargedIn" "\<forall>t x. l \<noteq> Fired t x"
    "\<forall>p. l \<noteq> Settled p False"
  shows "lastProcessedText s' = lastProcessedText s"
  using assms
  by (cases e) (auto simp: onTranscript_def turnFinally_def Let_def is_start_def split: if_splits)

lemma run_keeps_time:
  assumes "BargedIn \<notin> set (trace s es)" "\<forall>t x. Fired t x \<notin> set (trace s es)"
  shows "lastTriggerTime (final s es) = lastTriggerTime s"
  using assms
proof (induction es arbitrary: s)
  case Nil
  then show ?case by simp
next
  case (Cons e es)
  obtain s' l where st: "step s e = (s', l)" by (cases "step s e")
  with Cons.prems have "l \<noteq> BargedIn" "\<forall>t x. l \<noteq> Fired t x"
    by (auto simp: trace_Cons)
  with st have "lastTriggerTime s' = lastTriggerTime s" by (rule step_keeps_time)
  moreover have "lastTriggerTime (final s' es) = lastTriggerTime s'"
    using Cons.prems st by (intro Cons.IH) (auto simp: trace_Cons)
  ultimately show ?case using st by (simp add: final_Cons)
qed

lemma run_keeps_text:
  assumes "BargedIn \<notin> set (trace s es)" "\<forall>t x. Fired t x \<notin> set (trace s es)"
    "\<forall>p. Settled p False \<notin> set (trace s es)"
  shows "lastProcessedText (final s es) = lastProcessedText s"
  using assms
proof (induction es arbitrary: s)
  case Nil
  then show ?case by simp
next
  case (Cons e es)
  obtain s' l where st: "step s e = (s', l)" by (cases "step s e")
  with Cons.prems have "l \<noteq> BargedIn" "\<forall>t x. l \<noteq> Fired t x" "\<forall>p. l \<noteq> Settled p False"
    by (auto simp: trace_Cons)
  with st have "lastProcessedText s' = lastProcessedText s" by (rule step_keeps_text)
  moreover have "lastProcessedText (final s' es) = lastProcessedText s'"
    using Cons.prems st by (intro Cons.IH) (auto simp: trace_Cons)
  ultimately show ?case using st by (simp add: final_Cons)
qed

text \<open>
  Two triggers of one trace: the state after the first, the state before the second, and
  the events between them.
\<close>

lemma two_fires:
  assumes "trace s es = pre @ Fired t1 x1 # mid @ Fired t2 x2 # post"
  shows "\<exists>sa sb. lastTriggerTime sa = t1 \<and> lastProcessedText sa = x1
     \<and> (\<exists>em. trace sa em = mid \<and> sb = final sa em)
     \<and> 500 \<le> t2 - lastTriggerTime sb \<and> x2 \<noteq> lastProcessedText sb"
proof -
  from trace_split [OF assms] obtain ea eb where
    1: "es = ea @ eb" "trace s ea = pre"
       "trace (final s ea) eb = Fired t1 x1 # mid @ Fired t2 x2 # post"
    by blast
  from 1(3) obtain e1 eb' where eb: "eb = e1 # eb'"
    by (cases eb) auto
  let ?s0 = "final s ea"
  obtain sa l where st1: "step ?s0 e1 = (sa, l)" by (cases "step ?s0 e1")
  from 1(3) eb st1 have l: "l = Fired t1 x1" and 2: "trace sa eb' = mid @ Fired t2 x2 # post"
    by (simp_all add: trace_Cons)
  from trace_split [OF 2] obtain em ec where
    3: "eb' = em @ ec" "trace sa em = mid" "trace (final sa em) ec = Fired t2 x2 # post"
    by blast
  from 3(3) obtain e2 ec' where ec: "ec = e2 # ec'" by (cases ec) auto
  let ?sb = "final sa em"
  obtain sc l2 where st2: "step ?sb e2 = (sc, l2)" by (cases "step ?sb e2")
  from 3(3) ec st2 have l2: "l2 = Fired t2 x2" by (simp add: trace_Cons)
  from step_Fired [OF st1 [unfolded l]] step_Fired [OF st2 [unfolded l2]] 3(2)
  show ?thesis by blast
qed

lemmas policy_eval = trace_def policy_init_def ev_hello_def ev_stop_def ev_wait_def
  overlapped_def double_0_85_def double_0_8_def onTranscript_def
  bargeIn_def shouldTrigger_def turnFinally_def trim_def js_ws_def startsWith_def
  is_start_def Let_def

text \<open>
  C2, as stated, fails: a barge-in clears the cooldown and the last-triggered text, so the
  same final transcript triggers twice within 200 ms.
\<close>

theorem C2_counterexample:
  "trace policy_init [Transcript ev_hello, Transcript ev_stop,
       Transcript (ev_hello\<lparr> now := 1200 \<rparr>)]
   = [Fired 1000 ''hello world'', BargedIn, Fired 1200 ''hello world'']"
  by (simp add: policy_eval)

text \<open>
  C2 (amended): in every run of the handler over transcript events and turn settlements,
  two consecutive triggers with no barge-in between them are at least 500 ms apart; and
  when, besides, no unaborted turn settled between them, their texts differ.
\<close>

theorem C2_trigger_spacing:
  assumes "trace policy_init es = pre @ Fired t1 x1 # mid @ Fired t2 x2 # post"
    and "BargedIn \<notin> set mid" and "\<forall>t x. Fired t x \<notin> set mid"
  shows "500 \<le> t2 - t1 \<and> ((\<forall>p. Settled p False \<notin> set mid) \<longrightarrow> x2 \<noteq> x1)"
proof -
  from two_fires [OF assms(1)] obtain sa sb em where
    a: "lastTriggerTime sa = t1" "lastProcessedText sa = x1" "trace sa em = mid"
      "sb = final sa em" "500 \<le> t2 - lastTriggerTime sb" "x2 \<noteq> lastProcessedText sb"
    by blast
  have "lastTriggerTime sb = t1"
    using run_keeps_time [of sa em] a assms(2,3) by simp
  moreover have "(\<forall>p. Settled p False \<notin> set mid) \<longrightarrow> lastProcessedText sb = x1"
    using run_keeps_text [of sa em] a assms(2,3) by simp
  ultimately show ?thesis using a by auto
qed

text \<open>
  A run that meets the hypotheses: the first turn is interrupted, a second one starts, the
  interrupted one settles, and the next trigger comes 3800 ms later on another text.
\<close>

theorem C2_trigger_spacing_witness:
  "trace policy_init
     [Transcript ev_hello, Transcript ev_stop,
      Transcript (ev_stop\<lparr> is_final := True, now := 1200 \<rparr>), TurnSettled 0,
      Transcript (ev_hello\<lparr> now := 5000 \<rparr>)]
   = [Fired 1000 ''hello world'', BargedIn] @ Fired 1200 ''stop right now''
       # [Settled 0 True] @ Fired 5000 ''hello world'' # []
   \<and> (500::int) \<le> 5000 - 1200 \<and> ''hello world'' \<noteq> ''stop right now''"
proof -
  let ?es = "[Transcript ev_hello, Transcript ev_stop,
      Transcript (ev_stop\<lparr> is_final := True, now := 1200 \<rparr>), TurnSettled 0,
      Transcript (ev_hello\<lparr> now := 5000 \<rparr>)]"
  have tr: "trace policy_init ?es
    = [Fired 1000 ''hello world'', BargedIn] @ Fired 1200 ''stop right now''
       # [Settled 0 True] @ Fired 5000 ''hello world'' # []"
    by (simp add: policy_eval)
  from C2_trigger_spacing [OF tr] have "(500::int) \<le> 5000 - 1200
      \<and> ''hello world'' \<noteq> ''stop right now''"
    by simp
  with tr show ?thesis by blast
qed

text \<open>While the assistant is marked as speaking, a pipeline object is current.\<close>

lemma step_speaking:
  assumes "aiSpeaking s \<longrightarrow> currentPipeline s \<noteq> None"
  shows "aiSpeaking (fst (step s e)) \<longrightarrow> currentPipeline (fst (step s e)) \<noteq> None"
  using assms
  by (cases e) (auto simp: onTranscript_def turnFinally_def Let_def split: if_splits)

lemma run_speaking:
  assumes "aiSpeaking s \<longrightarrow> currentPipeline s \<noteq> None"
  shows "aiSpeaking (final s es) \<longrightarrow> currentPipeline (final s es) \<noteq> None"
  using assms
proof (induction es arbitrary: s)
  case Nil
  then show ?case by simp
next
  case (Cons e es)
  from step_speaking [OF Cons.prems] show ?case
    by (simp add: final_Cons Cons.IH)
qed

text \<open>
  While the handler's flag \<open>aiSpeaking\<close> is set, in any state it reaches, a transcript
  event whose trimmed text is longer than 5 and which does not start with the last
  processed text aborts the current pipeline, emits the barge-in signal once and nothing
  else (no turn is started), sets the transcript buffer to the event's text and clears the
  last processed text and the trigger time.
\<close>

lemma flagged_barge_in:
  assumes "s = final policy_init es"
    and "aiSpeaking s"
    and "5 < length (trim (tr_text ev))"
    and "\<not> startsWith (tr_text ev) (lastProcessedText s)"
  shows "\<exists>p. currentPipeline s = Some p
      \<and> p \<in> set (abortedPipelines (fst (onTranscript s ev)))
      \<and> currentPipeline (fst (onTranscript s ev)) = None
      \<and> snd (onTranscript s ev) = [EmitBargeIn]
      \<and> transcriptBuffer (fst (onTranscript s ev)) = tr_text ev
      \<and> lastProcessedText (fst (onTranscript s ev)) = []
      \<and> lastTriggerTime (fst (onTranscript s ev)) = 0
      \<and> snd (step s (Transcript ev)) = BargedIn"
proof -
  have "aiSpeaking policy_init \<longrightarrow> currentPipeline policy_init \<noteq> None"
    by (simp add: policy_init_def)
  from run_speaking [OF this, of es] assms(1,2) obtain p where p: "currentPipeline s = Some p"
    by auto
  have b: "bargeIn s ev"
    using assms(2-4) by (simp add: bargeIn_def)
  show ?thesis
    using p b by (simp add: onTranscript_def is_start_def)
qed

lemma flagged_barge_in_example:
  "aiSpeaking (final policy_init [Transcript ev_hello])
   \<and> 5 < length (trim (tr_text ev_stop))
   \<and> \<not> startsWith (tr_text ev_stop) (lastProcessedText (final policy_init [Transcript ev_hello]))
   \<and> (\<exists>p. currentPipeline (final policy_init [Transcript ev_hello]) = Some p
      \<and> p \<in> set (abortedPipelines (fst (onTranscript (final policy_init [Transcript ev_hello]) ev_stop)))
      \<and> snd (onTranscript (final policy_init [Transcript ev_hello]) ev_stop) = [EmitBargeIn])"
proof -
  let ?s = "final policy_init [Transcript ev_hello]"
  have h: "aiSpeaking ?s" "5 < length (trim (tr_text ev_stop))"
    "\<not> startsWith (tr_text ev_stop) (lastProcessedText ?s)"
    by (simp_all add: final_def policy_eval)
  from flagged_barge_in [OF refl h] h show ?thesis by blast
qed

text \<open>
  C3 on a run in which a turn is alive and the flag is down. The first turn is interrupted
  at 1100 and the second starts at 1200; when the first then settles, its \<open>finally\<close>
  clears \<open>aiSpeaking\<close> and \<open>currentPipeline\<close> although they belong to the second turn.
  Turn 1 is alive and not aborted, and the transcript \<open>wait a moment\<close>, longer than 5 and
  not starting with the last processed text, does not interrupt it: no barge-in signal is
  emitted and no pipeline is aborted, only the transcript buffer changes. A final
  transcript at 1800 then starts turn 2 while turn 1 is still alive.
\<close>

theorem C3_live_turn_not_interrupted:
  "turnsAlive policy_init [] overlapped = [1]
   \<and> abortedPipelines (final policy_init overlapped) = [0]
   \<and> aiSpeaking (final policy_init overlapped) = False
   \<and> currentPipeline (final policy_init overlapped) = None
   \<and> lastProcessedText (final policy_init overlapped) = ''stop right now''
   \<and> 5 < length (trim (tr_text ev_wait))
   \<and> startsWith (tr_text ev_wait) (lastProcessedText (final policy_init overlapped)) = False
   \<and> onTranscript (final policy_init overlapped) ev_wait
       = ((final policy_init overlapped)\<lparr> transcriptBuffer := ''wait a moment'' \<rparr>, [])
   \<and> snd (onTranscript (final policy_init overlapped) (ev_wait\<lparr> is_final := True, now := 1800 \<rparr>))
       = [EmitTranscript ''wait a moment'', StartTurn 2 ''wait a moment'']
   \<and> turnsAlive policy_init []
         (overlapped @ [Transcript (ev_wait\<lparr> is_final := True, now := 1800 \<rparr>)]) = [1, 2]"
  by (simp add: final_def policy_eval)

section \<open>Properties of the registry and the result callback\<close>

lemmas registry_eval = srv_live_def srv_gone_def srv_quiet_def sess_waiting_def sess_idle_def
  pend0_def req_success_def req_error_def req_unknown_def llm_ok_def tts_ok_def
  onDisconnect_def sweep_def stale_def stale_key_def n8nResponse_def speakResult_def
  resolveSession_def registry_get_def has_pending_def trimmedId_def trim_def js_ws_def Let_def

lemma find_first:
  assumes "xs = pre @ k # post" "P k" "\<forall>j\<in>set pre. \<not> P j"
  shows "find P xs = Some k"
  using assms by (induction pre arbitrary: xs) auto

lemma find_None_all: "find P xs = None \<longleftrightarrow> (\<forall>j\<in>set xs. \<not> P j)"
  by (induction xs) auto

text \<open>
  C6: for a callback whose session id is missing or a string, the session is the one
  stored under the trimmed id when there is one; otherwise it is the first session, in
  registry order, that has a pending action; a resolved session is the only one the
  handler touches, after answering 200; and when neither lookup finds a session the
  answer is 404 and the state is unchanged.
\<close>

theorem C6_resolution:
  assumes "sessionId req \<noteq> IdOther"
  shows "(\<forall>k sess. trimmedId (sessionId req) = Some k \<and> registry_get srv k = Some sess
            \<longrightarrow> resolveSession srv (trimmedId (sessionId req)) = Some (k, sess))
     \<and> (\<forall>pre k post sess.
           (trimmedId (sessionId req) = None
              \<or> registry_get srv (the (trimmedId (sessionId req))) = None)
           \<and> activeSessions srv = pre @ k # post
           \<and> (\<forall>j\<in>set pre. \<not> has_pending srv j)
           \<and> sessions srv k = Some sess \<and> pendingWorkspaceAction sess \<noteq> None
            \<longrightarrow> resolveSession srv (trimmedId (sessionId req)) = Some (k, sess))
     \<and> (\<forall>k sess. resolveSession srv (trimmedId (sessionId req)) = Some (k, sess)
            \<longrightarrow> (\<exists>effs. snd (n8nResponse llm tts srv req) = Respond 200 # effs)
              \<and> (\<forall>j. j \<noteq> k \<longrightarrow> sessions (fst (n8nResponse llm tts srv req)) j = sessions srv j))
     \<and> ((trimmedId (sessionId req) = None
              \<or> registry_get srv (the (trimmedId (sessionId req))) = None)
         \<and> (\<forall>j\<in>set (activeSessions srv). \<not> has_pending srv j)
            \<longrightarrow> n8nResponse llm tts srv req = (srv, [Respond 404]))"
proof (intro conjI allI impI)
  fix k sess
  assume "trimmedId (sessionId req) = Some k \<and> registry_get srv k = Some sess"
  then show "resolveSession srv (trimmedId (sessionId req)) = Some (k, sess)"
    by (simp add: resolveSession_def)
next
  fix pre k post sess
  assume a: "(trimmedId (sessionId req) = None
              \<or> registry_get srv (the (trimmedId (sessionId req))) = None)
           \<and> activeSessions srv = pre @ k # post
           \<and> (\<forall>j\<in>set pre. \<not> has_pending srv j)
           \<and> sessions srv k = Some sess \<and> pendingWorkspaceAction sess \<noteq> None"
  then have "has_pending srv k" by (simp add: has_pending_def)
  with a have "find (has_pending srv) (activeSessions srv) = Some k"
    by (intro find_first [of _ pre k post]) auto
  with a show "resolveSession srv (trimmedId (sessionId req)) = Some (k, sess)"
    by (auto simp: resolveSession_def split: option.splits)
next
  fix k sess
  assume r: "resolveSession srv (trimmedId (sessionId req)) = Some (k, sess)"
  with assms show "\<exists>effs. snd (n8nResponse llm tts srv req) = Respond 200 # effs"
    by (cases "sessionId req") (auto simp: n8nResponse_def split: prod.splits)
  fix j assume "j \<noteq> k"
  with r assms show "sessions (fst (n8nResponse llm tts srv req)) j = sessions srv j"
    by (cases "sessionId req") (auto simp: n8nResponse_def split: prod.splits)
next
  assume a: "(trimmedId (sessionId req) = None
              \<or> registry_get srv (the (trimmedId (sessionId req))) = None)
         \<and> (\<forall>j\<in>set (activeSessions srv). \<not> has_pending srv j)"
  then have "find (has_pending srv) (activeSessions srv) = None"
    by (simp add: find_None_all)
  with a have "resolveSession srv (trimmedId (sessionId req)) = None"
    by (auto simp: resolveSession_def split: option.splits)
  with assms show "n8nResponse llm tts srv req = (srv, [Respond 404])"
    by (cases "sessionId req") (simp_all add: n8nResponse_def)
qed

theorem C6_resolution_witness:
  "sessionId req_success \<noteq> IdOther \<and> sessionId req_unknown \<noteq> IdOther
   \<and> trimmedId (sessionId req_success) = Some ''a''
   \<and> registry_get srv_live ''a'' = Some sess_waiting
   \<and> resolveSession srv_live (trimmedId (sessionId req_success)) = Some (''a'', sess_waiting)
   \<and> registry_get srv_live (the (trimmedId (sessionId req_unknown))) = None
   \<and> activeSessions srv_live = [''b''] @ ''a'' # []
   \<and> \<not> has_pending srv_live ''b''
   \<and> resolveSession srv_live (trimmedId (sessionId req_unknown)) = Some (''a'', sess_waiting)
   \<and> sessions (fst (n8nResponse llm_ok tts_ok srv_live req_unknown)) ''b'' = sessions srv_live ''b''
   \<and> registry_get srv_quiet (the (trimmedId (sessionId req_unknown))) = None
   \<and> \<not> has_pending srv_quiet ''b''
   \<and> n8nResponse llm_ok tts_ok srv_quiet req_unknown = (srv_quiet, [Respond 404])"
proof -
  have h: "sessionId req_success \<noteq> IdOther" "sessionId req_unknown \<noteq> IdOther"
    "trimmedId (sessionId req_success) = Some ''a''"
    "registry_get srv_live ''a'' = Some sess_waiting"
    "registry_get srv_live (the (trimmedId (sessionId req_unknown))) = None"
    "activeSessions srv_live = [''b''] @ ''a'' # []"
    "\<not> has_pending srv_live ''b''"
    "sessions srv_live ''a'' = Some sess_waiting" "pendingWorkspaceAction sess_waiting \<noteq> None"
    "registry_get srv_quiet (the (trimmedId (sessionId req_unknown))) = None"
    "\<not> has_pending srv_quiet ''b''" "activeSessions srv_quiet = [''b'']"
    by (simp_all add: registry_eval)
  have 1: "resolveSession srv_live (trimmedId (sessionId req_success)) = Some (''a'', sess_waiting)"
    using C6_resolution [OF h(1), of srv_live llm_ok tts_ok, THEN conjunct1, rule_format,
        of "''a''" sess_waiting] h(3,4)
    by simp
  have 2: "resolveSession srv_live (trimmedId (sessionId req_unknown)) = Some (''a'', sess_waiting)"
    using C6_resolution [OF h(2), of srv_live llm_ok tts_ok, THEN conjunct2, THEN conjunct1,
        rule_format, of "[''b'']" "''a''" "[]" sess_waiting] h(5-9)
    by simp
  have 3: "sessions (fst (n8nResponse llm_ok tts_ok srv_live req_unknown)) ''b'' = sessions srv_live ''b''"
    using C6_resolution [OF h(2), of srv_live llm_ok tts_ok, THEN conjunct2, THEN conjunct2,
        THEN conjunct1, rule_format, OF 2, THEN conjunct2, rule_format, of "''b''"]
    by simp
  have 4: "n8nResponse llm_ok tts_ok srv_quiet req_unknown = (srv_quiet, [Respond 404])"
    using C6_resolution [OF h(2), of srv_quiet llm_ok tts_ok, THEN conjunct2, THEN conjunct2,
        THEN conjunct2, rule_format] h(10-12)
    by simp
  from h(1-7) h(10,11) 1 2 3 4 show ?thesis by blast
qed

text \<open>
  C7: when the callback resolves to a session whose socket is gone, the handler answers
  200, clears the session's pending action and does nothing else: no text or audio is
  emitted, nothing is synthesized and the conversation history is as before.
\<close>

theorem C7_disconnected:
  assumes "sessionId req \<noteq> IdOther"
    and "resolveSession srv (trimmedId (sessionId req)) = Some (k, sess)"
    and "k \<notin> set (sockets srv)"
  shows "n8nResponse llm tts srv req
     = (srv\<lparr> sessions := (sessions srv)(k \<mapsto> sess\<lparr> pendingWorkspaceAction := None \<rparr>) \<rparr>,
        [Respond 200])"
  using assms by (cases "sessionId req") (simp_all add: n8nResponse_def)

theorem C7_disconnected_witness:
  "sessionId req_success \<noteq> IdOther
   \<and> resolveSession srv_gone (trimmedId (sessionId req_success))
       = Some (''a'', sess_waiting\<lparr> disconnectedAt := Some 2000000 \<rparr>)
   \<and> ''a'' \<notin> set (sockets srv_gone)
   \<and> n8nResponse llm_ok tts_ok srv_gone req_success
       = (srv_gone\<lparr> sessions := (sessions srv_gone)(''a'' \<mapsto>
              sess_waiting\<lparr> disconnectedAt := Some 2000000, pendingWorkspaceAction := None \<rparr>) \<rparr>,
          [Respond 200])"
proof -
  have h: "sessionId req_success \<noteq> IdOther"
    "resolveSession srv_gone (trimmedId (sessionId req_success))
       = Some (''a'', sess_waiting\<lparr> disconnectedAt := Some 2000000 \<rparr>)"
    "''a'' \<notin> set (sockets srv_gone)"
    by (simp_all add: registry_eval)
  from C7_disconnected [OF h, of llm_ok tts_ok] h show ?thesis by simp
qed

text \<open>
  C8, as stated, fails: a session retained 30 s ago, with no active call and a last
  activity more than 30 minutes old, survives the sweep, because the idle test is only
  made for sessions without a disconnect timestamp.
\<close>

theorem C8_counterexample:
  "sessions srv_gone ''a'' = Some (sess_waiting\<lparr> disconnectedAt := Some 2000000 \<rparr>)
   \<and> \<not> isCallActive (sess_waiting\<lparr> disconnectedAt := Some 2000000 \<rparr>)
   \<and> 2030000 - lastActivity (sess_waiting\<lparr> disconnectedAt := Some 2000000 \<rparr>) > 30 * 60 * 1000
   \<and> ''a'' \<in> set (activeSessions (fst (sweep 2030000 srv_gone)))"
  by (simp add: registry_eval)

text \<open>
  C8 (amended): on disconnect a session with a pending action stays in the registry with
  its disconnect time recorded, and one without is removed from the registry; the sweep
  removes every session whose recorded (nonzero) disconnect time is more than 60 s old,
  and every session with no recorded disconnect time, no active call and a (nonzero) last
  activity more than 30 minutes old.
\<close>

theorem C8_lifecycle:
  assumes "sessions srv k = Some sess"
  shows "(pendingWorkspaceAction sess \<noteq> None \<longrightarrow>
            activeSessions (fst (onDisconnect t k srv)) = activeSessions srv
            \<and> sessions (fst (onDisconnect t k srv)) k = Some (sess\<lparr> disconnectedAt := Some t \<rparr>))
     \<and> (pendingWorkspaceAction sess = None \<longrightarrow>
            k \<notin> set (activeSessions (fst (onDisconnect t k srv))))
     \<and> (\<forall>d. disconnectedAt sess = Some d \<and> d \<noteq> 0 \<and> 60 * 1000 < t - d \<longrightarrow>
            k \<notin> set (activeSessions (fst (sweep t srv))))
     \<and> (disconnectedAt sess = None \<and> \<not> isCallActive sess \<and> lastActivity sess \<noteq> 0
          \<and> 30 * 60 * 1000 < t - lastActivity sess \<longrightarrow>
            k \<notin> set (activeSessions (fst (sweep t srv))))"
  using assms
  by (auto simp: onDisconnect_def sweep_def stale_key_def stale_def Let_def)

theorem C8_lifecycle_witness:
  "sessions srv_live ''a'' = Some sess_waiting
   \<and> pendingWorkspaceAction sess_waiting \<noteq> None
   \<and> activeSessions srv_gone = activeSessions srv_live
   \<and> sessions srv_gone ''a'' = Some (sess_waiting\<lparr> disconnectedAt := Some 2000000 \<rparr>)
   \<and> sessions srv_live ''b'' = Some sess_idle
   \<and> pendingWorkspaceAction sess_idle = None
   \<and> ''b'' \<notin> set (activeSessions (fst (onDisconnect 5000 ''b'' srv_live)))
   \<and> (60 * 1000 :: int) < 2070000 - 2000000
   \<and> ''a'' \<notin> set (activeSessions (fst (sweep 2070000 srv_gone)))
   \<and> disconnectedAt sess_idle = None \<and> \<not> isCallActive sess_idle \<and> lastActivity sess_idle \<noteq> 0
   \<and> 30 * 60 * 1000 < 2070000 - lastActivity sess_idle
   \<and> ''b'' \<notin> set (activeSessions (fst (sweep 2070000 srv_live)))"
proof -
  have a: "sessions srv_live ''a'' = Some sess_waiting"
    and b: "sessions srv_live ''b'' = Some sess_idle"
    and g: "sessions srv_gone ''a'' = Some (sess_waiting\<lparr> disconnectedAt := Some 2000000 \<rparr>)"
    by (simp_all add: registry_eval)
  have p: "pendingWorkspaceAction sess_waiting \<noteq> None" "pendingWorkspaceAction sess_idle = None"
    "disconnectedAt sess_idle = None" "\<not> isCallActive sess_idle" "lastActivity sess_idle \<noteq> 0"
    "30 * 60 * 1000 < 2070000 - lastActivity sess_idle"
    by (simp_all add: sess_waiting_def sess_idle_def)
  from C8_lifecycle [OF a, of 2000000] p
  have 1: "activeSessions srv_gone = activeSessions srv_live"
    by (simp add: srv_gone_def)
  from C8_lifecycle [OF b, of 5000] p
  have 2: "''b'' \<notin> set (activeSessions (fst (onDisconnect 5000 ''b'' srv_live)))"
    by simp
  from C8_lifecycle [OF g, of 2070000]
  have 3: "''a'' \<notin> set (activeSessions (fst (sweep 2070000 srv_gone)))"
    by simp
  from C8_lifecycle [OF b, of 2070000] p
  have 4: "''b'' \<notin> set (activeSessions (fst (sweep 2070000 srv_live)))"
    by simp
  from a b g p 1 2 3 4 show ?thesis by simp
qed

text \<open>
  C9, as stated, fails: for a result with status \<open>error\<close> the generation provider is not
  asked and no message carrying the result enters the history; a fixed apology is
  appended and spoken.
\<close>

theorem C9_counterexample:
  "snd (n8nResponse llm_ok tts_ok srv_live req_error)
     = [Respond 200,
        EmitAiResponse ''a'' ''I ran into an issue completing that task. Could you try again?'',
        TextToSpeech ''I ran into an issue completing that task. Could you try again?'',
        EmitAudio ''a'' ''audio:I ran into an issue completing that task. Could you try again?'',
        EmitStatus ''a'' ''Listening...'']
   \<and> map_option conversationHistory (sessions (fst (n8nResponse llm_ok tts_ok srv_live req_error)) ''a'')
     = Some [\<lparr> role = Assistant,
               content = ''I ran into an issue completing that task. Could you try again?'' \<rparr>]"
  by (simp add: registry_eval)

text \<open>
  C9 (amended): for a result that reaches a session with a live connection. When its
  status is \<open>success\<close> and its summary is non-empty, the summary enters the history inside
  a user-role message with the first-person instruction, the generation provider is asked
  for a reply on that history, the raw summary standing in when the call fails, and the
  reply is appended as an assistant entry, emitted and synthesized. Otherwise a fixed
  text is appended, emitted and synthesized. In both cases the pending action is cleared.
\<close>

theorem C9_result_spoken:
  assumes "sessionId req \<noteq> IdOther"
    and "resolveSession srv (trimmedId (sessionId req)) = Some (k, sess)"
    and "k \<in> set (sockets srv)"
  shows "(\<forall>summ. status req = Some ''success'' \<and> summary req = Some summ \<and> summ \<noteq> [] \<longrightarrow>
           (\<exists>h1 r. h1 = conversationHistory sess @ [\<lparr> role = User, content = systemNote summ \<rparr>]
              \<and> r = (case llm h1 of Some naturalSummary \<Rightarrow> naturalSummary | None \<Rightarrow> summ)
              \<and> n8nResponse llm tts srv req
                 = (srv\<lparr> sessions := (sessions srv)(k \<mapsto>
                          sess\<lparr> conversationHistory := h1 @ [\<lparr> role = Assistant, content = r \<rparr>],
                               pendingWorkspaceAction := None \<rparr>) \<rparr>,
                    [Respond 200, LlmGenerate h1, EmitAiResponse k r, TextToSpeech r]
                    @ (case tts r of Some a \<Rightarrow> [EmitAudio k a] | None \<Rightarrow> [])
                    @ [EmitStatus k ''Listening...''])))
     \<and> (\<not> (status req = Some ''success'' \<and> summary req \<noteq> None \<and> summary req \<noteq> Some []) \<longrightarrow>
           (\<exists>r. r = (if status req = Some ''error''
                      then ''I ran into an issue completing that task. Could you try again?''
                      else ''All done! I completed that task for you.'')
              \<and> n8nResponse llm tts srv req
                 = (srv\<lparr> sessions := (sessions srv)(k \<mapsto>
                          sess\<lparr> conversationHistory :=
                                  conversationHistory sess @ [\<lparr> role = Assistant, content = r \<rparr>],
                               pendingWorkspaceAction := None \<rparr>) \<rparr>,
                    [Respond 200, EmitAiResponse k r, TextToSpeech r]
                    @ (case tts r of Some a \<Rightarrow> [EmitAudio k a] | None \<Rightarrow> [])
                    @ [EmitStatus k ''Listening...''])))"
  using assms
  by (cases "sessionId req")
     (auto simp: n8nResponse_def speakResult_def Let_def split: option.splits)

theorem C9_result_spoken_witness:
  "sessionId req_success \<noteq> IdOther
   \<and> resolveSession srv_live (trimmedId (sessionId req_success)) = Some (''a'', sess_waiting)
   \<and> ''a'' \<in> set (sockets srv_live)
   \<and> status req_success = Some ''success'' \<and> summary req_success = Some ''Meeting booked''
   \<and> snd (n8nResponse llm_ok tts_ok srv_live req_success)
       = [Respond 200,
          LlmGenerate [\<lparr> role = User, content = systemNote ''Meeting booked'' \<rparr>],
          EmitAiResponse ''a'' ''I booked the meeting.'',
          TextToSpeech ''I booked the meeting.'',
          EmitAudio ''a'' ''audio:I booked the meeting.'',
          EmitStatus ''a'' ''Listening...'']
   \<and> status req_error \<noteq> Some ''success''
   \<and> snd (n8nResponse llm_ok tts_ok srv_live req_error)
       = [Respond 200,
          EmitAiResponse ''a'' ''I ran into an issue completing that task. Could you try again?'',
          TextToSpeech ''I ran into an issue completing that task. Could you try again?'',
          EmitAudio ''a'' ''audio:I ran into an issue completing that task. Could you try again?'',
          EmitStatus ''a'' ''Listening...'']"
proof -
  have h: "sessionId req_success \<noteq> IdOther"
    "resolveSession srv_live (trimmedId (sessionId req_success)) = Some (''a'', sess_waiting)"
    "''a'' \<in> set (sockets srv_live)"
    and e: "sessionId req_error \<noteq> IdOther"
    "resolveSession srv_live (trimmedId (sessionId req_error)) = Some (''a'', sess_waiting)"
    by (simp_all add: registry_eval)
  have s: "status req_success = Some ''success''" "summary req_success = Some ''Meeting booked''"
    "status req_error \<noteq> Some ''success''" "status req_error = Some ''error''"
    by (simp_all add: req_success_def req_error_def)
  have c: "conversationHistory sess_waiting = []"
    by (simp add: sess_waiting_def)
  from C9_result_spoken [OF h, of llm_ok tts_ok] s c
  have 1: "snd (n8nResponse llm_ok tts_ok srv_live req_success)
       = [Respond 200,
          LlmGenerate [\<lparr> role = User, content = systemNote ''Meeting booked'' \<rparr>],
          EmitAiResponse ''a'' ''I booked the meeting.'',
          TextToSpeech ''I booked the meeting.'',
          EmitAudio ''a'' ''audio:I booked the meeting.'',
          EmitStatus ''a'' ''Listening...'']"
    by (simp add: llm_ok_def tts_ok_def)
  from C9_result_spoken [OF e h(3), of llm_ok tts_ok] s
  have 2: "snd (n8nResponse llm_ok tts_ok srv_live req_error)
       = [Respond 200,
          EmitAiResponse ''a'' ''I ran into an issue completing that task. Could you try again?'',
          TextToSpeech ''I ran into an issue completing that task. Could you try again?'',
          EmitAudio ''a'' ''audio:I ran into an issue completing that task. Could you try again?'',
          EmitStatus ''a'' ''Listening...'']"
    by (simp add: tts_ok_def)
  from h s 1 2 show ?thesis by simp
qed

section \<open>Properties of the sentence segmenter\<close>

lemma scan_concat: "concat (fst (scan cur cs)) @ snd (scan cur cs) = cur @ cs"
  by (induction cur cs rule: scan.induct) (auto split: prod.splits)

lemma feed_concat:
  "concat (fst (feed d chunks)) @ getRemainder (snd (feed d chunks)) = buffer d @ concat chunks"
proof (induction chunks arbitrary: d)
  case Nil
  show ?case by (simp add: getRemainder_def)
next
  case (Cons chunk chunks)
  obtain ss r where sc: "scan (buffer d) chunk = (ss, r)" by (cases "scan (buffer d) chunk")
  have 1: "concat ss @ r = buffer d @ chunk"
    using scan_concat [of "buffer d" chunk] sc by simp
  let ?d1 = "d\<lparr> buffer := r \<rparr>"
  have 2: "concat (fst (feed ?d1 chunks)) @ getRemainder (snd (feed ?d1 chunks)) = r @ concat chunks"
    using Cons.IH [of ?d1] by simp
  have "concat (fst (feed d (chunk # chunks))) @ getRemainder (snd (feed d (chunk # chunks)))
      = concat ss @ (concat (fst (feed ?d1 chunks)) @ getRemainder (snd (feed ?d1 chunks)))"
    using sc by (simp add: addChunk_def split: prod.splits)
  also have "\<dots> = concat ss @ r @ concat chunks" using 2 by simp
  also have "\<dots> = buffer d @ chunk @ concat chunks" using 1 by (metis append.assoc)
  finally show ?case by simp
qed

text \<open>
  C4: for every list of chunks fed to a fresh detector, the sentences returned by the
  successive \<open>addChunk\<close> calls, concatenated in order and followed by the final
  \<open>getRemainder\<close>, are the concatenation of the chunks.
\<close>

theorem C4_round_trip:
  "concat (fst (feed newSentenceDetector chunks)) @ getRemainder (snd (feed newSentenceDetector chunks))
     = concat chunks"
  using feed_concat [of newSentenceDetector chunks] by (simp add: newSentenceDetector_def)

theorem C4_round_trip_witness:
  "feed newSentenceDetector [''It is'', '' sunny.'', '' Enjoy!'', '' Bye'']
     = ([''It is sunny.'', '' Enjoy!''], \<lparr> buffer = '' Bye'' \<rparr>)
   \<and> concat (fst (feed newSentenceDetector [''It is'', '' sunny.'', '' Enjoy!'', '' Bye'']))
       @ getRemainder (snd (feed newSentenceDetector [''It is'', '' sunny.'', '' Enjoy!'', '' Bye'']))
     = ''It is sunny. Enjoy! Bye''"
proof -
  have 1: "feed newSentenceDetector [''It is'', '' sunny.'', '' Enjoy!'', '' Bye'']
     = ([''It is sunny.'', '' Enjoy!''], \<lparr> buffer = '' Bye'' \<rparr>)"
    by (simp add: newSentenceDetector_def addChunk_def terminal_def)
  from C4_round_trip [of "[''It is'', '' sunny.'', '' Enjoy!'', '' Bye'']"]
  have "concat (fst (feed newSentenceDetector [''It is'', '' sunny.'', '' Enjoy!'', '' Bye'']))
       @ getRemainder (snd (feed newSentenceDetector [''It is'', '' sunny.'', '' Enjoy!'', '' Bye'']))
     = ''It is sunny. Enjoy! Bye''"
    by simp
  with 1 show ?thesis by blast
qed

section \<open>Properties of the TTS worker\<close>

lemma wrun_append:
  "wrun w (a @ b) = (let (w1, o1) = wrun w a; (w2, o2) = wrun w1 b in (w2, o1 @ o2))"
  by (induction a arbitrary: w) (auto split: prod.splits)

lemma wrun_snoc:
  "wrun w (es @ [e]) = (let (w1, o1) = wrun w es; (w2, o2) = wstep w1 e in (w2, o1 @ o2))"
  by (simp add: wrun_append split: prod.splits)

lemma pushed_append: "pushed (a @ b) = pushed a @ pushed b"
  by (induction a rule: pushed.induct) auto

lemma requested_append: "requested (a @ b) = requested a @ requested b"
  by (induction a rule: requested.induct) auto

lemma answered_append: "answered (a @ b) = answered a @ answered b"
  by (induction a rule: answered.induct) auto

lemma requested_simps [simp]:
  "requested [WStatus x] = []" "requested [TtsRequest y] = [y]" "requested [AudioResponse y a] = []"
  "answered [WStatus x] = []" "answered [TtsRequest y] = []" "answered [AudioResponse y a] = [y]"
  by simp_all

lemma winv_resume:
  assumes "winv w outs ps" "resume w = (w', o')"
  shows "winv w' (outs @ o') ps"
proof (cases "wstate w = Waiting")
  case False
  with assms show ?thesis by (simp add: resume_def)
next
  case True
  from assms(1) True obtain consumed where c: "ps = consumed @ items (ttsQueue w)"
    "requested outs = consumed" "[] \<notin> set (requested outs)"
    "subseq (answered outs) (requested outs)" "inFlight w = 0"
    by (auto simp: winv_def)
  show ?thesis
  proof (cases "items (ttsQueue w)")
    case Nil
    with assms True show ?thesis
      by (auto simp: resume_def next_of_def winv_def split: if_splits)
  next
    case (Cons x xs)
    have ps: "ps = (consumed @ [x]) @ xs" using c Cons by simp
    show ?thesis
    proof (cases "isAborted w \<or> x = []")
      case True
      with assms(2) \<open>wstate w = Waiting\<close> Cons
      have w': "w' = w\<lparr> ttsQueue := (ttsQueue w)\<lparr> items := xs \<rparr>, wstate := Returned \<rparr>" "o' = []"
        by (auto simp: resume_def next_of_def split: if_splits)
      show ?thesis
        unfolding winv_def
        apply (rule exI [of _ "consumed @ [x]"])
        using w' c ps by simp
    next
      case False
      with assms(2) \<open>wstate w = Waiting\<close> Cons
      have w': "wstate w' = Synthesizing x" "items (ttsQueue w') = xs" "inFlight w' = 1"
        "requested o' = [x]" "answered o' = []"
        using c(5) by (auto simp: resume_def next_of_def split: if_splits)
      show ?thesis
        unfolding winv_def
        apply (rule exI [of _ "consumed @ [x]"])
        using w' c ps False by (auto simp: requested_append answered_append)
    qed
  qed
qed

lemma winv_queue:
  assumes "winv w outs ps"
  shows "winv (w\<lparr> ttsQueue := push (ttsQueue w) x \<rparr>) outs (ps @ [x])"
    and "winv (w\<lparr> ttsQueue := close (ttsQueue w) \<rparr>) outs ps"
    and "winv (w\<lparr> isAborted := b \<rparr>) outs ps"
  using assms by (auto simp: winv_def push_def close_def split: wstate.splits)

lemma winv_settled_stop:
  assumes "winv w outs ps" "wstate w = Synthesizing s"
  shows "winv (w\<lparr> wstate := Returned, inFlight := inFlight w - 1 \<rparr>) outs ps"
  using assms by (auto simp: winv_def list_emb_append2 split: wstate.splits)

lemma winv_settled_audio:
  assumes "winv w outs ps" "wstate w = Synthesizing s"
  shows "winv (w\<lparr> wstate := Waiting, inFlight := inFlight w - 1 \<rparr>) (outs @ [AudioResponse s a]) ps"
  using assms by (auto simp: winv_def requested_append answered_append split: wstate.splits)

lemma winv_settled_error:
  assumes "winv w outs ps" "wstate w = Synthesizing s"
  shows "winv (w\<lparr> wstate := Waiting, inFlight := inFlight w - 1 \<rparr>) outs ps"
  using assms by (auto simp: winv_def list_emb_append2 split: wstate.splits)

lemma winv_step:
  assumes "winv w outs ps" "wstep w e = (w', o')"
  shows "winv w' (outs @ o') (ps @ pushed [e])"
proof (cases e)
  case (Push x)
  with assms(2) have "resume (w\<lparr> ttsQueue := push (ttsQueue w) x \<rparr>) = (w', o')"
    by (simp add: wstep_def)
  from winv_resume [OF winv_queue(1) [OF assms(1)] this] Push show ?thesis by simp
next
  case Close
  with assms(2) have "resume (w\<lparr> ttsQueue := close (ttsQueue w) \<rparr>) = (w', o')"
    by (simp add: wstep_def)
  from winv_resume [OF winv_queue(2) [OF assms(1)] this] Close show ?thesis by simp
next
  case Abort
  with assms(2) have "w' = w\<lparr> isAborted := True \<rparr>" "o' = []"
    by (simp_all add: wstep_def)
  with winv_queue(3) [OF assms(1), of True] Abort show ?thesis by simp
next
  case (TtsSettled r)
  show ?thesis
  proof (cases "wstate w")
    case Waiting
    with assms TtsSettled show ?thesis by (simp add: wstep_def)
  next
    case Returned
    with assms TtsSettled show ?thesis by (simp add: wstep_def)
  next
    case (Synthesizing s)
    show ?thesis
    proof (cases r)
      case None
      with assms(2) TtsSettled Synthesizing
      have "resume (w\<lparr> wstate := Waiting, inFlight := inFlight w - 1 \<rparr>) = (w', o')"
        by (simp add: wstep_def)
      from winv_resume [OF winv_settled_error [OF assms(1) Synthesizing] this] TtsSettled
      show ?thesis by simp
    next
      case (Some a)
      show ?thesis
      proof (cases "isAborted w")
        case True
        with assms(2) TtsSettled Synthesizing Some
        have "w' = w\<lparr> wstate := Returned, inFlight := inFlight w - 1 \<rparr>" "o' = []"
          by (simp_all add: wstep_def)
        with winv_settled_stop [OF assms(1) Synthesizing] TtsSettled show ?thesis by simp
      next
        case False
        obtain w2 o2 where r2: "resume (w\<lparr> wstate := Waiting, inFlight := inFlight w - 1 \<rparr>) = (w2, o2)"
          by (cases "resume (w\<lparr> wstate := Waiting, inFlight := inFlight w - 1 \<rparr>)")
        with assms(2) TtsSettled Synthesizing Some False
        have "w' = w2" "o' = AudioResponse s a # o2"
          by (simp_all add: wstep_def)
        with winv_resume [OF winv_settled_audio [OF assms(1) Synthesizing, of a] r2] TtsSettled
        show ?thesis by simp
      qed
    qed
  qed
qed

lemma winv_run:
  "winv (fst (wrun newWorker es)) (snd (wrun newWorker es)) (pushed es)"
proof (induction es rule: rev_induct)
  case Nil
  show ?case by (simp add: winv_def newWorker_def newAsyncQueue_def)
next
  case (snoc e es)
  obtain w1 o1 where r: "wrun newWorker es = (w1, o1)" by (cases "wrun newWorker es")
  obtain w2 o2 where s: "wstep w1 e = (w2, o2)" by (cases "wstep w1 e")
  from snoc r have "winv w1 o1 (pushed es)" by simp
  from winv_step [OF this s] r s show ?case
    by (simp add: wrun_snoc pushed_append)
qed

lemma prefix_takeWhile:
  assumes "prefix xs ys" "\<forall>x\<in>set xs. P x"
  shows "prefix xs (takeWhile P ys)"
  using assms
  by (metis prefixE prefixI takeWhile_append2 takeWhile_append)

text \<open>
  C5: in every run of a turn's worker, the sentences sent to synthesis are, in order, an
  initial segment of the sentences pushed onto the queue, the audio responses are emitted
  in the order of those requests, and at no time is more than one synthesis request in
  flight; until the worker returns, the sentences requested followed by those still
  queued are the sentences pushed, none skipped.
\<close>

theorem C5_order_single_flight:
  "prefix (requested (snd (wrun newWorker es))) (pushed es)
   \<and> subseq (answered (snd (wrun newWorker es))) (requested (snd (wrun newWorker es)))
   \<and> inFlight (fst (wrun newWorker es)) \<le> 1
   \<and> (wstate (fst (wrun newWorker es)) \<noteq> Returned \<longrightarrow>
        pushed es = requested (snd (wrun newWorker es))
                    @ items (ttsQueue (fst (wrun newWorker es))))"
proof -
  let ?w = "fst (wrun newWorker es)" and ?outs = "snd (wrun newWorker es)"
  from winv_run [of es] obtain consumed where
    c: "pushed es = consumed @ items (ttsQueue ?w)"
      "prefix (requested ?outs) consumed"
      "wstate ?w = Waiting \<or> (\<exists>s. wstate ?w = Synthesizing s) \<longrightarrow> requested ?outs = consumed"
    and k: "case wstate ?w of
              Synthesizing s \<Rightarrow>
                (\<exists>cs. requested ?outs = cs @ [s] \<and> subseq (answered ?outs) cs)
                \<and> inFlight ?w = 1
            | _ \<Rightarrow> subseq (answered ?outs) (requested ?outs) \<and> inFlight ?w = 0"
    unfolding winv_def by blast
  from c have 1: "prefix (requested ?outs) (pushed es)"
    by simp
  from k have 2: "subseq (answered ?outs) (requested ?outs) \<and> inFlight ?w \<le> 1"
    by (cases "wstate ?w") (auto simp: list_emb_append2)
  from c have 3: "wstate ?w \<noteq> Returned \<longrightarrow> pushed es = requested ?outs @ items (ttsQueue ?w)"
    by (cases "wstate ?w") auto
  from 1 2 3 show ?thesis by simp
qed

lemmas worker_eval = newWorker_def newAsyncQueue_def wstep_def resume_def next_of_def
  push_def close_def Let_def

theorem C5_order_single_flight_witness:
  "snd (wrun newWorker [Push ''One.'', Push ''Two.'', TtsSettled (Some ''a1''), Close,
          TtsSettled (Some ''a2'')])
     = [WStatus ''AI is speaking...'', TtsRequest ''One.'', AudioResponse ''One.'' ''a1'',
        TtsRequest ''Two.'', AudioResponse ''Two.'' ''a2'']
   \<and> prefix [''One.'', ''Two.''] [''One.'', ''Two.'']
   \<and> subseq [''One.'', ''Two.''] [''One.'', ''Two.'']
   \<and> wrun newWorker [Push ''One.'', Push ''Two.'']
     = (\<lparr> wstate = Synthesizing ''One.'', sentenceCount = 1,
          ttsQueue = \<lparr> items = [''Two.''], closed = False \<rparr>, isAborted = False,
          inFlight = 1 \<rparr>,
        [WStatus ''AI is speaking...'', TtsRequest ''One.''])
   \<and> inFlight (fst (wrun newWorker [Push ''One.'', Push ''Two.''])) \<le> 1
   \<and> pushed [Push ''One.'', Push ''Two.'']
     = requested (snd (wrun newWorker [Push ''One.'', Push ''Two.'']))
       @ items (ttsQueue (fst (wrun newWorker [Push ''One.'', Push ''Two.''])))"
proof -
  let ?es = "[Push ''One.'', Push ''Two.'', TtsSettled (Some ''a1''), Close,
          TtsSettled (Some ''a2'')]"
  let ?e2 = "[Push ''One.'', Push ''Two.'']"
  have 1: "snd (wrun newWorker ?es)
     = [WStatus ''AI is speaking...'', TtsRequest ''One.'', AudioResponse ''One.'' ''a1'',
        TtsRequest ''Two.'', AudioResponse ''Two.'' ''a2'']"
    by (simp add: worker_eval)
  from C5_order_single_flight [of ?es] 1
  have 2: "prefix [''One.'', ''Two.''] [''One.'', ''Two.'']
      \<and> subseq [''One.'', ''Two.''] [''One.'', ''Two.'']"
    by simp
  have 3: "wrun newWorker ?e2
     = (\<lparr> wstate = Synthesizing ''One.'', sentenceCount = 1,
          ttsQueue = \<lparr> items = [''Two.''], closed = False \<rparr>, isAborted = False,
          inFlight = 1 \<rparr>,
        [WStatus ''AI is speaking...'', TtsRequest ''One.''])"
    by (simp add: worker_eval)
  then have 4: "wstate (fst (wrun newWorker ?e2)) \<noteq> Returned"
    by simp
  from C5_order_single_flight [of ?e2] 4
  have 5: "inFlight (fst (wrun newWorker ?e2)) \<le> 1
     \<and> pushed ?e2 = requested (snd (wrun newWorker ?e2)) @ items (ttsQueue (fst (wrun newWorker ?e2)))"
    by blast
  from 1 2 3 5 show ?thesis by blast
qed

text \<open>A worker that waits has an empty queue before it.\<close>

lemma resume_waiting_empty:
  "wstate (fst (resume w)) = Waiting \<Longrightarrow> items (ttsQueue (fst (resume w))) = []"
  by (auto simp: resume_def next_of_def split: if_splits list.splits)

lemma wstep_waiting_empty:
  assumes "wstate w = Waiting \<longrightarrow> items (ttsQueue w) = []"
  shows "wstate (fst (wstep w e)) = Waiting \<longrightarrow> items (ttsQueue (fst (wstep w e))) = []"
proof (cases e)
  case (Push x)
  then show ?thesis using resume_waiting_empty by (simp add: wstep_def)
next
  case Close
  then show ?thesis using resume_waiting_empty by (simp add: wstep_def)
next
  case Abort
  then show ?thesis using assms by (simp add: wstep_def)
next
  case (TtsSettled r)
  show ?thesis
  proof (cases "wstate w")
    case (Synthesizing s)
    with TtsSettled show ?thesis
      using resume_waiting_empty [of "w\<lparr> wstate := Waiting, inFlight := inFlight w - 1 \<rparr>"]
      by (auto simp: wstep_def split: option.splits prod.splits)
  qed (use TtsSettled assms in \<open>simp_all add: wstep_def\<close>)
qed

lemma wrun_waiting_empty:
  "wstate (fst (wrun newWorker es)) = Waiting \<longrightarrow> items (ttsQueue (fst (wrun newWorker es))) = []"
proof (induction es rule: rev_induct)
  case Nil
  show ?case by (simp add: newWorker_def newAsyncQueue_def)
next
  case (snoc e es)
  have "fst (wrun newWorker (es @ [e])) = fst (wstep (fst (wrun newWorker es)) e)"
    by (simp add: wrun_snoc split: prod.splits)
  with wstep_waiting_empty [OF snoc, of e] show ?case
    by simp
qed

text \<open>Once an empty string has been pushed the worker is never found waiting.\<close>

lemma falsy_not_waiting:
  assumes "[] \<in> set (pushed es)"
  shows "wstate (fst (wrun newWorker es)) \<noteq> Waiting"
proof
  let ?w = "fst (wrun newWorker es)" and ?outs = "snd (wrun newWorker es)"
  assume w: "wstate ?w = Waiting"
  from winv_run [of es] w obtain consumed where
    c: "pushed es = consumed @ items (ttsQueue ?w)" "requested ?outs = consumed"
       "[] \<notin> set (requested ?outs)"
    unfolding winv_def by blast
  from wrun_waiting_empty [of es] w have "items (ttsQueue ?w) = []" by simp
  with c have "[] \<notin> set (pushed es)" by simp
  with assms show False by simp
qed

lemma inFlight_state:
  "inFlight (fst (wrun newWorker es)) = 0 \<Longrightarrow> \<forall>s. wstate (fst (wrun newWorker es)) \<noteq> Synthesizing s"
  using winv_run [of es] unfolding winv_def by (auto split: wstate.splits)

lemma requests_before_falsy:
  "prefix (requested (snd (wrun newWorker es))) (takeWhile (\<lambda>x. x \<noteq> []) (pushed es))"
proof -
  from winv_run [of es] obtain consumed where
    c: "pushed es = consumed @ items (ttsQueue (fst (wrun newWorker es)))"
      "prefix (requested (snd (wrun newWorker es))) consumed"
      "[] \<notin> set (requested (snd (wrun newWorker es)))"
    unfolding winv_def by blast
  from c have "prefix (requested (snd (wrun newWorker es))) (pushed es)"
    by simp
  with c(3) show ?thesis
    by (intro prefix_takeWhile) auto
qed

text \<open>
  Each settled synthesis either ends the worker or makes it request one more sentence, and
  the requests are bounded by the sentences pushed before the empty string.
\<close>

lemma settle_step:
  assumes "wstate w = Synthesizing s" "wstep w (TtsSettled r) = (w', o')"
    "wstate w' = Synthesizing s'"
  shows "length (requested o') = 1"
  using assms
  by (auto simp: wstep_def resume_def next_of_def Let_def
      split: option.splits if_splits list.splits prod.splits)

lemma settle_returned:
  assumes "wstate w = Returned"
  shows "wstep w (TtsSettled r) = (w, [])"
  using assms by (simp add: wstep_def)

lemma pushed_only_settled: "pushed (map TtsSettled rs) = []"
  by (induction rs) simp_all

lemma pushed_settled: "pushed (es @ map TtsSettled rs) = pushed es"
  by (simp add: pushed_append pushed_only_settled)

lemma settle_progress:
  assumes "[] \<in> set (pushed es)"
  shows "wstate (fst (wrun newWorker (es @ map TtsSettled rs))) = Returned
     \<or> length rs < length (requested (snd (wrun newWorker (es @ map TtsSettled rs))))"
proof (induction rs rule: rev_induct)
  case Nil
  let ?w = "fst (wrun newWorker es)" and ?outs = "snd (wrun newWorker es)"
  show ?case
  proof (cases "wstate ?w")
    case Waiting
    with falsy_not_waiting [OF assms] show ?thesis by simp
  next
    case Returned
    then show ?thesis by simp
  next
    case (Synthesizing s)
    with winv_run [of es] have "\<exists>cs. requested ?outs = cs @ [s]"
      unfolding winv_def by auto
    then show ?thesis by auto
  qed
next
  case (snoc r rs)
  let ?es = "es @ map TtsSettled rs"
  obtain w outs where run: "wrun newWorker ?es = (w, outs)" by (cases "wrun newWorker ?es")
  obtain w' o' where st: "wstep w (TtsSettled r) = (w', o')" by (cases "wstep w (TtsSettled r)")
  have run': "wrun newWorker (es @ map TtsSettled (rs @ [r])) = (w', outs @ o')"
    using run st wrun_snoc [of newWorker ?es "TtsSettled r"] by simp
  have "[] \<in> set (pushed (es @ map TtsSettled (rs @ [r])))"
    using assms by (simp only: pushed_settled)
  from falsy_not_waiting [OF this] run' have nw: "wstate w' \<noteq> Waiting"
    by simp
  show ?case
  proof (cases "wstate w'")
    case Waiting
    with nw show ?thesis by simp
  next
    case Returned
    with run' show ?thesis by simp
  next
    case (Synthesizing s')
    have "wstate w \<noteq> Returned"
    proof
      assume r: "wstate w = Returned"
      from settle_returned [OF r, of r] st have "w' = w" by simp
      with r Synthesizing show False by simp
    qed
    moreover have "[] \<in> set (pushed ?es)"
      using assms by (simp only: pushed_settled)
    from falsy_not_waiting [OF this] run have "wstate w \<noteq> Waiting"
      by simp
    ultimately obtain s where sy: "wstate w = Synthesizing s" by (cases "wstate w") auto
    from settle_step [OF sy st Synthesizing] have 1: "length (requested o') = 1" .
    from snoc run \<open>wstate w \<noteq> Returned\<close> have "length rs < length (requested outs)" by simp
    with 1 run' show ?thesis by (simp add: requested_append)
  qed
qed

text \<open>
  C10: in every run of a turn's worker, the sentences sent to synthesis and the sentences
  whose audio is emitted all come before the first empty string pushed onto the queue.
  Once an empty string has been pushed the worker is not waiting for items: it has
  returned as soon as no synthesis is in flight, and it has returned, whatever is queued
  behind the empty string and whether or not the queue is closed, after as many settled
  syntheses as there are sentences before the empty string.
\<close>

theorem C10_falsy_item_stops:
  "prefix (requested (snd (wrun newWorker es))) (takeWhile (\<lambda>x. x \<noteq> []) (pushed es))
   \<and> subseq (answered (snd (wrun newWorker es))) (takeWhile (\<lambda>x. x \<noteq> []) (pushed es))
   \<and> ([] \<in> set (pushed es) \<longrightarrow>
        wstate (fst (wrun newWorker es)) \<noteq> Waiting
        \<and> (inFlight (fst (wrun newWorker es)) = 0 \<longrightarrow> wstate (fst (wrun newWorker es)) = Returned)
        \<and> (\<forall>rs. length (takeWhile (\<lambda>x. x \<noteq> []) (pushed es)) \<le> length rs \<longrightarrow>
              wstate (fst (wrun newWorker (es @ map TtsSettled rs))) = Returned))"
proof -
  let ?w = "fst (wrun newWorker es)" and ?outs = "snd (wrun newWorker es)"
  have 1: "prefix (requested ?outs) (takeWhile (\<lambda>x. x \<noteq> []) (pushed es))"
    by (rule requests_before_falsy)
  from winv_run [of es] have "subseq (answered ?outs) (requested ?outs)"
    unfolding winv_def by (cases "wstate ?w") (auto simp: list_emb_append2)
  with 1 have 2: "subseq (answered ?outs) (takeWhile (\<lambda>x. x \<noteq> []) (pushed es))"
    by (meson prefix_imp_subseq subseq_order.order_trans)
  have 3: "wstate ?w \<noteq> Waiting
        \<and> (inFlight ?w = 0 \<longrightarrow> wstate ?w = Returned)
        \<and> (\<forall>rs. length (takeWhile (\<lambda>x. x \<noteq> []) (pushed es)) \<le> length rs \<longrightarrow>
              wstate (fst (wrun newWorker (es @ map TtsSettled rs))) = Returned)"
    if f: "[] \<in> set (pushed es)"
  proof (intro conjI allI impI)
    show a: "wstate ?w \<noteq> Waiting" by (rule falsy_not_waiting [OF f])
    show "wstate ?w = Returned" if "inFlight ?w = 0"
      using a inFlight_state [OF that] by (cases "wstate ?w") auto
    fix rs :: "audio option list"
    assume len: "length (takeWhile (\<lambda>x. x \<noteq> []) (pushed es)) \<le> length rs"
    let ?es = "es @ map TtsSettled rs"
    from requests_before_falsy [of ?es]
    have "length (requested (snd (wrun newWorker ?es))) \<le> length (takeWhile (\<lambda>x. x \<noteq> []) (pushed es))"
      by (simp only: pushed_settled prefix_length_le)
    with len settle_progress [OF f, of rs]
    show "wstate (fst (wrun newWorker ?es)) = Returned" by auto
  qed
  from 1 2 3 show ?thesis by blast
qed

theorem C10_falsy_item_stops_witness:
  "wrun newWorker [Push ''One.'', Push [], Push ''Two.'', TtsSettled (Some ''a1'')]
     = (\<lparr> wstate = Returned, sentenceCount = 1,
          ttsQueue = \<lparr> items = [''Two.''], closed = False \<rparr>, isAborted = False,
          inFlight = 0 \<rparr>,
        [WStatus ''AI is speaking...'', TtsRequest ''One.'', AudioResponse ''One.'' ''a1''])
   \<and> prefix [''One.''] (takeWhile (\<lambda>x. x \<noteq> []) [''One.'', [], ''Two.''])
   \<and> subseq [''One.''] (takeWhile (\<lambda>x. x \<noteq> []) [''One.'', [], ''Two.''])
   \<and> [] \<in> set (pushed [Push ''One.'', Push [], Push ''Two.''])
   \<and> wstate (fst (wrun newWorker [Push ''One.'', Push [], Push ''Two.''])) = Synthesizing ''One.''
   \<and> wstate (fst (wrun newWorker [Push ''One.'', Push [], Push ''Two.''])) \<noteq> Waiting
   \<and> length (takeWhile (\<lambda>x. x \<noteq> []) (pushed [Push ''One.'', Push [], Push ''Two.'']))
       \<le> length [Some ''a1'']
   \<and> wstate (fst (wrun newWorker
         ([Push ''One.'', Push [], Push ''Two.''] @ map TtsSettled [Some ''a1'']))) = Returned
   \<and> [] \<in> set (pushed [Push ''One.'', Push [], Push ''Two.'', TtsSettled (Some ''a1'')])
   \<and> inFlight (fst (wrun newWorker
         [Push ''One.'', Push [], Push ''Two.'', TtsSettled (Some ''a1'')])) = 0
   \<and> wstate (fst (wrun newWorker
         [Push ''One.'', Push [], Push ''Two.'', TtsSettled (Some ''a1'')])) = Returned"
proof -
  let ?es = "[Push ''One.'', Push [], Push ''Two.'', TtsSettled (Some ''a1'')]"
  let ?e3 = "[Push ''One.'', Push [], Push ''Two.'']"
  have 1: "wrun newWorker ?es
     = (\<lparr> wstate = Returned, sentenceCount = 1,
          ttsQueue = \<lparr> items = [''Two.''], closed = False \<rparr>, isAborted = False,
          inFlight = 0 \<rparr>,
        [WStatus ''AI is speaking...'', TtsRequest ''One.'', AudioResponse ''One.'' ''a1''])"
    by (simp add: worker_eval)
  have 2: "wstate (fst (wrun newWorker ?e3)) = Synthesizing ''One.''"
    by (simp add: worker_eval)
  have f: "[] \<in> set (pushed ?e3)" "[] \<in> set (pushed ?es)"
    "length (takeWhile (\<lambda>x. x \<noteq> []) (pushed ?e3)) \<le> length [Some ''a1'']"
    "inFlight (fst (wrun newWorker ?es)) = 0"
    using 1 by simp_all
  from C10_falsy_item_stops [of ?es] 1
  have 3: "prefix [''One.''] (takeWhile (\<lambda>x. x \<noteq> []) [''One.'', [], ''Two.''])
   \<and> subseq [''One.''] (takeWhile (\<lambda>x. x \<noteq> []) [''One.'', [], ''Two.''])"
    by simp
  have 4: "wstate (fst (wrun newWorker ?es)) = Returned"
    using C10_falsy_item_stops [of ?es, THEN conjunct2, THEN conjunct2, rule_format, OF f(2),
        THEN conjunct2, THEN conjunct1, rule_format, OF f(4)] .
  have 5: "wstate (fst (wrun newWorker ?e3)) \<noteq> Waiting"
    using C10_falsy_item_stops [of ?e3, THEN conjunct2, THEN conjunct2, rule_format, OF f(1),
        THEN conjunct1] .
  have 6: "wstate (fst (wrun newWorker (?e3 @ map TtsSettled [Some ''a1'']))) = Returned"
    using C10_falsy_item_stops [of ?e3, THEN conjunct2, THEN conjunct2, rule_format, OF f(1),
        THEN conjunct2, THEN conjunct2, rule_format, OF f(3)] .
  from 1 2 3 4 5 6 f show ?thesis by blast
qed

section \<open>Properties of the turn pipeline\<close>

text \<open>The payload of \<open>streamOpenAIResponse\<close> passes the substring test of the handler.\<close>

lemma includes_payload: "js_includes (toolCallsChunk tcs) ''__tool_call''"
  by (simp add: toolCallsChunk_def dq_def)

text \<open>Its parsed value has the property \<open>__tool_calls\<close>, not \<open>__tool_call\<close>.\<close>

lemma toolCallOf_payload:
  assumes "jsonParse sv (toolCallsChunk tcs) = Some (toolCallsValue tcs)"
  shows "toolCallOf sv (toolCallsChunk tcs) = None"
  using assms includes_payload [of tcs]
  by (simp add: toolCallOf_def toolCallsValue_def getProp_def)

text \<open>
  A chunk whose parsed value does carry a \<open>google_workspace_action\<close> call under
  \<open>__tool_call\<close>, with arguments that parse, is kept from the detector: the pending
  action is recorded, the acknowledgment is emitted, synthesized and appended to the
  history, and the delegated request is sent.
\<close>

lemma tool_call_routed:
  assumes "toolCallOf sv chunk = Some v"
    and "propOf v ''name'' = Some (JStr ''google_workspace_action'')"
    and "parseArguments sv v = Some a"
    and "seg_getRemainder seg (seg_new seg) = []"
    and "randomIndex sv < 4"
  shows "acknowledgments ! randomIndex sv \<in> set acknowledgments
   \<and> handleUserMessage sv seg k sess userMessage [Chunk chunk] False
     = (sess\<lparr> pendingWorkspaceAction :=
                 Some \<lparr> toolCallId = propOf v ''id'', args = a, timestamp = dateNow sv \<rparr>,
              conversationHistory := conversationHistory sess
                 @ [\<lparr> role = User, content = userMessage \<rparr>,
                    \<lparr> role = Assistant, content = acknowledgments ! randomIndex sv \<rparr>] \<rparr>,
        [EmitStatus k ''AI is thinking...'', QueueClose,
         EmitAiResponse k (acknowledgments ! randomIndex sv),
         EmitStatus k ''Processing your request...'',
         TextToSpeech (acknowledgments ! randomIndex sv)]
        @ (case textToSpeech sv (acknowledgments ! randomIndex sv) of
             Some ackAudio \<Rightarrow> [EmitAudio k ackAudio] | None \<Rightarrow> [])
        @ [SendWorkspaceAction a k, EmitStatus k ''Listening...''])"
proof -
  have "length acknowledgments = 4"
    by (simp add: acknowledgments_def)
  with assms(5) have "acknowledgments ! randomIndex sv \<in> set acknowledgments"
    by (intro nth_mem) simp
  moreover have "handleUserMessage sv seg k sess userMessage [Chunk chunk] False
     = (sess\<lparr> pendingWorkspaceAction :=
                 Some \<lparr> toolCallId = propOf v ''id'', args = a, timestamp = dateNow sv \<rparr>,
              conversationHistory := conversationHistory sess
                 @ [\<lparr> role = User, content = userMessage \<rparr>,
                    \<lparr> role = Assistant, content = acknowledgments ! randomIndex sv \<rparr>] \<rparr>,
        [EmitStatus k ''AI is thinking...'', QueueClose,
         EmitAiResponse k (acknowledgments ! randomIndex sv),
         EmitStatus k ''Processing your request...'',
         TextToSpeech (acknowledgments ! randomIndex sv)]
        @ (case textToSpeech sv (acknowledgments ! randomIndex sv) of
             Some ackAudio \<Rightarrow> [EmitAudio k ackAudio] | None \<Rightarrow> [])
        @ [SendWorkspaceAction a k, EmitStatus k ''Listening...''])"
    using assms(1-4)
    by (simp add: handleUserMessage_def workspaceAction_def Let_def)
  ultimately show ?thesis by simp
qed

text \<open>
  C1 on the payload the provider really yields. For a turn that is not aborted and whose
  stream is the chunk \<open>JSON.stringify({ __tool_calls: ... })\<close>, which \<open>JSON.parse\<close> reads
  back, the handler treats the chunk as generated text: it goes through the sentence
  detector, its sentences and remainder are emitted and pushed to the synthesis queue, the
  text is appended to the history as the assistant's reply, and the session is otherwise
  unchanged: no pending action is recorded, no acknowledgment is spoken and no delegated
  request is sent.
\<close>

theorem C1_payload_not_routed:
  assumes "jsonParse sv (toolCallsChunk tcs) = Some (toolCallsValue tcs)"
  shows "handleUserMessage sv seg k sess userMessage [Chunk (toolCallsChunk tcs)] False
     = (let (sentences, d) = seg_addChunk seg (seg_new seg) (toolCallsChunk tcs);
            remainder = seg_getRemainder seg d
        in (sess\<lparr> conversationHistory := conversationHistory sess
                    @ [\<lparr> role = User, content = userMessage \<rparr>,
                       \<lparr> role = Assistant, content = toolCallsChunk tcs @ remainder \<rparr>] \<rparr>,
            [EmitStatus k ''AI is thinking...'']
            @ concat (map (\<lambda>sentence. [EmitAiResponse k sentence, QueuePush sentence]) sentences)
            @ (if remainder \<noteq> [] then [EmitAiResponse k remainder, QueuePush remainder] else [])
            @ [QueueClose, EmitStatus k ''Listening...'']))"
  using toolCallOf_payload [OF assms]
  by (simp add: handleUserMessage_def processChunk_def Let_def split: prod.splits)

lemma payload_scan:
  "addChunk newSentenceDetector (toolCallsChunk [tc_calendar])
     = ([], \<lparr> buffer = toolCallsChunk [tc_calendar] \<rparr>)"
  by (simp add: toolCallsChunk_def toolCallText_def tc_calendar_def json_quote_def
      json_escape_def dq_def addChunk_def newSentenceDetector_def terminal_def)

theorem C1_payload_not_routed_witness:
  "jsonParse sv_fixture (toolCallsChunk [tc_calendar]) = Some (toolCallsValue [tc_calendar])
   \<and> handleUserMessage sv_fixture specSegmenter ''a'' sess_idle ''book a meeting''
        [Chunk (toolCallsChunk [tc_calendar])] False
     = (sess_idle\<lparr> conversationHistory :=
            [\<lparr> role = User, content = ''book a meeting'' \<rparr>,
             \<lparr> role = Assistant,
               content = toolCallsChunk [tc_calendar] @ toolCallsChunk [tc_calendar] \<rparr>] \<rparr>,
        [EmitStatus ''a'' ''AI is thinking...'',
         EmitAiResponse ''a'' (toolCallsChunk [tc_calendar]),
         QueuePush (toolCallsChunk [tc_calendar]),
         QueueClose, EmitStatus ''a'' ''Listening...''])
   \<and> pendingWorkspaceAction sess_idle = None"
proof -
  have p: "jsonParse sv_fixture (toolCallsChunk [tc_calendar]) = Some (toolCallsValue [tc_calendar])"
    by (simp add: sv_fixture_def)
  have n: "toolCallsChunk [tc_calendar] \<noteq> []"
    by (simp add: toolCallsChunk_def)
  have h: "conversationHistory sess_idle = []" "pendingWorkspaceAction sess_idle = None"
    by (simp_all add: sess_idle_def)
  from C1_payload_not_routed [OF p, of specSegmenter "''a''" sess_idle "''book a meeting''"]
  have "handleUserMessage sv_fixture specSegmenter ''a'' sess_idle ''book a meeting''
        [Chunk (toolCallsChunk [tc_calendar])] False
     = (sess_idle\<lparr> conversationHistory :=
            [\<lparr> role = User, content = ''book a meeting'' \<rparr>,
             \<lparr> role = Assistant,
               content = toolCallsChunk [tc_calendar] @ toolCallsChunk [tc_calendar] \<rparr>] \<rparr>,
        [EmitStatus ''a'' ''AI is thinking...'',
         EmitAiResponse ''a'' (toolCallsChunk [tc_calendar]),
         QueuePush (toolCallsChunk [tc_calendar]),
         QueueClose, EmitStatus ''a'' ''Listening...''])"
    using n h by (simp add: specSegmenter_def payload_scan getRemainder_def Let_def)
  with p h show ?thesis by blast
qed

end
